theory Spec2Isabelle
  imports Main "HOL-Library.Word" "HOL-Library.Sublist"
begin

section \<open>JavaScript strings\<close>

text \<open>
  A JavaScript string is a sequence of UTF-16 code units; \<open>length\<close>, \<open>startsWith\<close>,
  \<open>includes\<close>, \<open>split\<close>, \<open>slice\<close> and \<open>trim\<close> all work on code units. The literals
  of the page that are not ASCII are written as their code units.
\<close>

type_synonym jschar = "16 word"
type_synonym jstring = "jschar list"

definition ascii :: "string \<Rightarrow> jstring" where
  "ascii s = map (\<lambda>c. word_of_nat (of_char c)) s"

text \<open>\<open>s.startsWith(p)\<close>\<close>

definition startsWith :: "jstring \<Rightarrow> jstring \<Rightarrow> bool" where
  "startsWith s p = (take (length p) s = p)"

text \<open>\<open>s.includes(p)\<close>: \<open>p\<close> occurs in \<open>s\<close> at some position.\<close>

fun includes_js :: "jstring \<Rightarrow> jstring \<Rightarrow> bool" where
  "includes_js [] p = (p = [])"
| "includes_js (c # cs) p = (startsWith (c # cs) p \<or> includes_js cs p)"

text \<open>\<open>s.split(sep)\<close> for a separator of one code unit; the empty string splits into \<open>['']\<close>.\<close>

fun split_js :: "jschar \<Rightarrow> jstring \<Rightarrow> jstring list" where
  "split_js sep [] = [[]]"
| "split_js sep (c # cs) =
     (if c = sep then [] # split_js sep cs
      else (case split_js sep cs of
              [] \<Rightarrow> [[c]]
            | l # ls \<Rightarrow> (c # l) # ls))"

text \<open>\<open>s.slice(n)\<close> for \<open>n \<ge> 0\<close>.\<close>

definition slice :: "nat \<Rightarrow> jstring \<Rightarrow> jstring" where
  "slice n s = drop n s"

text \<open>The WhiteSpace and LineTerminator code units that \<open>trim\<close> strips.\<close>

definition isWhiteSpace :: "jschar \<Rightarrow> bool" where
  "isWhiteSpace c =
     (c \<in> set [0x09, 0x0A, 0x0B, 0x0C, 0x0D, 0x20, 0xA0, 0x1680, 0x2028, 0x2029,
                0x202F, 0x205F, 0x3000, 0xFEFF]
      \<or> (0x2000 \<le> c \<and> c \<le> 0x200A))"

definition trim :: "jstring \<Rightarrow> jstring" where
  "trim s = rev (dropWhile isWhiteSpace (rev (dropWhile isWhiteSpace s)))"

text \<open>\<open>n.toString()\<close> for a non-negative integer.\<close>

fun toString :: "nat \<Rightarrow> jstring" where
  "toString n =
     (if n < 10 then [word_of_nat (48 + n)]
      else toString (n div 10) @ [word_of_nat (48 + n mod 10)])"

declare toString.simps [simp del]

definition newline :: jschar where
  "newline = 0x0A"

text \<open>
  The keywords of the classification, as code units: U+641C U+7D22 ("search"),
  U+5206 U+6790 ("analyse") and U+62A5 U+544A ("report").
\<close>

definition kw_search :: jstring where
  "kw_search = [0x641C, 0x7D22]"

definition kw_analyze :: jstring where
  "kw_analyze = [0x5206, 0x6790]"

definition kw_report :: jstring where
  "kw_report = [0x62A5, 0x544A]"

text \<open>The title and the description of the action appended when the stream fails.\<close>

definition txt_error_title :: jstring where
  "txt_error_title = [0x5904, 0x7406, 0x9519, 0x8BEF]"

definition txt_error_description :: jstring where
  "txt_error_description =
     [0x5904, 0x7406, 0x8FC7, 0x7A0B, 0x4E2D, 0x53D1, 0x751F, 0x9519, 0x8BEF, 0xFF0C,
      0x8BF7, 0x91CD, 0x8BD5]"

text \<open>The content of the loading placeholder.\<close>

definition txt_loading :: jstring where
  "txt_loading =
     [0x6B63, 0x5728, 0x5206, 0x6790, 0x4E2D, 0xFF0C, 0x8BF7, 0x7A0D, 0x5019, 0x2E, 0x2E, 0x2E]"

text \<open>The reply shown when the chat endpoint answers without a response.\<close>

definition txt_cannot_process :: jstring where
  "txt_cannot_process =
     [0x62B1, 0x6B49, 0xFF0C, 0x6211, 0x6682, 0x65F6, 0x65E0, 0x6CD5, 0x5904, 0x7406,
      0x60A8, 0x7684, 0x8BF7, 0x6C42, 0x3002, 0x8BF7, 0x7A0D, 0x540E, 0x518D, 0x8BD5, 0x3002]"

text \<open>The fixed service-unavailable reply of the catch branch.\<close>

definition txt_unavailable :: jstring where
  "txt_unavailable =
     [0x62B1, 0x6B49, 0xFF0C, 0x670D, 0x52A1, 0x6682, 0x65F6, 0x4E0D, 0x53EF, 0x7528,
      0x3002, 0x8BF7, 0x68C0, 0x67E5, 0x540E, 0x7AEF, 0x670D, 0x52A1, 0x662F, 0x5426,
      0x6B63, 0x5E38, 0x8FD0, 0x884C, 0x3002]"

text \<open>The prefix of the report title, before the locale date.\<close>

definition txt_report_prefix :: jstring where
  "txt_report_prefix = [0x4F01, 0x4E1A, 0x5206, 0x6790, 0x62A5, 0x544A, 0x20, 0x2D, 0x20]"

section \<open>JSON values and property access\<close>

text \<open>
  \<open>JSON.parse\<close> is the runtime's; the handlers take it as the parameter
  \<open>parse\<close>, with \<open>None\<close> for a \<open>SyntaxError\<close>. A parsed value is an object, an array or a
  scalar. The fields of an object are scalars here: the stream's events and the chat
  reply carry strings, numbers, booleans and null in the fields the page reads. An
  object is the list of its properties, each key once. \<open>JUndefined\<close> is what
  reading a missing property gives.
\<close>

datatype jsval = JUndefined | JNull | JBool bool | JNum int | JStr jstring

datatype json = JObject "(jstring \<times> jsval) list" | JArray | JScalar jsval

datatype exn = TypeError | NetworkError | Error jsval

text \<open>
  \<open>data.p\<close> for the property names the page reads (\<open>type\<close>, \<open>step_name\<close>,
  \<open>description\<close>, \<open>status\<close>, \<open>timestamp\<close>, \<open>response\<close>, \<open>message\<close>): a
  \<open>TypeError\<close> on null and undefined, undefined on arrays and on the other scalars.
\<close>

fun getProp :: "json \<Rightarrow> jstring \<Rightarrow> exn + jsval" where
  "getProp (JObject kvs) p = Inr (case map_of kvs p of None \<Rightarrow> JUndefined | Some v \<Rightarrow> v)"
| "getProp JArray p = Inr JUndefined"
| "getProp (JScalar JUndefined) p = Inl TypeError"
| "getProp (JScalar JNull) p = Inl TypeError"
| "getProp (JScalar v) p = Inr JUndefined"

text \<open>JavaScript truthiness.\<close>

fun truthy :: "jsval \<Rightarrow> bool" where
  "truthy JUndefined = False"
| "truthy JNull = False"
| "truthy (JBool b) = b"
| "truthy (JNum n) = (n \<noteq> 0)"
| "truthy (JStr s) = (s \<noteq> [])"

text \<open>
  \<open>v.length > n\<close>: a string has a length; on a boolean or a number \<open>.length\<close> is
  undefined and the comparison is false; on null and undefined the read throws.
\<close>

fun lengthGt :: "jsval \<Rightarrow> nat \<Rightarrow> exn + bool" where
  "lengthGt (JStr s) n = Inr (length s > n)"
| "lengthGt (JBool b) n = Inr False"
| "lengthGt (JNum i) n = Inr False"
| "lengthGt JUndefined n = Inl TypeError"
| "lengthGt JNull n = Inl TypeError"

text \<open>\<open>v && v.length > n\<close> as a condition.\<close>

definition truthyAndLengthGt :: "jsval \<Rightarrow> nat \<Rightarrow> exn + bool" where
  "truthyAndLengthGt v n = (if truthy v then lengthGt v n else Inr False)"

text \<open>\<open>s.includes(p)\<close> where \<open>s\<close> was read from an event: only a string has the method.\<close>

fun includes_val :: "jsval \<Rightarrow> jstring \<Rightarrow> exn + bool" where
  "includes_val (JStr s) p = Inr (includes_js s p)"
| "includes_val v p = Inl TypeError"

section \<open>The page's data\<close>

text \<open>
  The clock (\<open>Date.now()\<close>), \<open>Math.random()\<close> as a template literal prints it, and
  \<open>new Date().toLocaleDateString()\<close>: read from the environment; no branch of the page
  depends on them.
\<close>

record env =
  now :: nat
  random :: jstring
  localeDate :: jstring

datatype date = DateNow nat | DateOf jsval

datatype sender = User | Bot

text \<open>
  \<open>interface Message\<close>: \<open>id\<close>, \<open>type\<close>, \<open>content\<close>, \<open>timestamp\<close>, \<open>isLoading?\<close>.
  \<open>content\<close> holds whatever value the handler stores.
\<close>

record message =
  msgId :: jstring
  msgType :: sender
  content :: jsval
  msgTimestamp :: date
  msgIsLoading :: "bool option"

datatype action_type = Search | Analyze | Generate | Complete

datatype action_status = Pending | Running | Completed | Failed

text \<open>
  \<open>interface AgentAction\<close>: \<open>id\<close>, \<open>type\<close>, \<open>title\<close>, \<open>description\<close>, \<open>status\<close>
  (\<open>Failed\<close> is \<open>'error'\<close>), \<open>timestamp\<close>, \<open>duration?\<close>.
\<close>

record agent_action =
  actId :: jstring
  actType :: action_type
  title :: jstring
  description :: jsval
  status :: action_status
  actTimestamp :: date
  duration :: "nat option"

text \<open>A request body \<open>{ message, conversation_id }\<close> posted to \<open>url\<close>.\<close>

record request =
  url :: jstring
  reqMessage :: jstring
  conversation_id :: jstring

text \<open>Callbacks handed to \<open>setTimeout\<close>, with their delay in milliseconds.\<close>

datatype callback = HideAgentPanel | SimulatedAction nat action_type jstring jstring

text \<open>
  The component's state (the \<open>useState\<close> cells), and with it the effects a handler has
  on the world: the requests issued and the timers scheduled, in order.
\<close>

record page =
  messages :: "message list"
  inputValue :: jstring
  isLoading :: bool
  agentActions :: "agent_action list"
  showAgentPanel :: bool
  showChatHistory :: bool
  showReportPanel :: bool
  currentReport :: jsval
  reportTitle :: jstring
  requests :: "request list"
  timers :: "(nat \<times> callback) list"

text \<open>
  What the network answers. For the stream: \<open>fetch\<close> rejects, answers with a status that
  is not ok, answers without a body, or answers with a body read as a finite sequence
  of decoded chunks, which ends with \<open>done\<close> or with a rejected \<open>read()\<close>. For
  \<open>axios.post\<close>: it rejects, or resolves with the reply's \<open>data\<close>, an object or another
  value that is not null.
\<close>

datatype stream_end = Done | ReadRejected

datatype fetch_result = FetchRejected | NotOk | NoBody | Body "jstring list" stream_end

datatype reply_data = ObjectData "(jstring \<times> jsval) list" | OtherData

datatype axios_result = AxiosRejected | AxiosResolved reply_data

section \<open>The stream handler of the chat page\<close>

definition bind_exn :: "exn + 'a \<Rightarrow> ('a \<Rightarrow> exn + 'b) \<Rightarrow> exn + 'b" where
  "bind_exn r f = (case r of Inl e \<Rightarrow> Inl e | Inr v \<Rightarrow> f v)"

text \<open>
  The \<open>type\<close> of a new action: the nested conditional on
  \<open>data.step_name.includes(...)\<close>, first match wins, \<open>'complete'\<close> when none matches.
\<close>

definition actionType :: "jsval \<Rightarrow> exn + action_type" where
  "actionType step_name =
     bind_exn (includes_val step_name kw_search) (\<lambda>b1.
       if b1 then Inr Search
       else bind_exn (includes_val step_name kw_analyze) (\<lambda>b2.
         if b2 then Inr Analyze
         else bind_exn (includes_val step_name kw_report) (\<lambda>b3.
           if b3 then Inr Generate else Inr Complete)))"

text \<open>The \<open>status\<close> of a new action, by strict equality with the two literals.\<close>

definition actionStatus :: "jsval \<Rightarrow> action_status" where
  "actionStatus v =
     (if v = JStr (ascii ''running'') then Running
      else if v = JStr (ascii ''completed'') then Completed
      else Pending)"

text \<open>
  The object literal \<open>newAction\<close> of a step event. Building it throws when
  \<open>step_name\<close> has no \<open>includes\<close> method; the title is then never read.
\<close>

definition newAction :: "env \<Rightarrow> json \<Rightarrow> exn + agent_action" where
  "newAction e data =
     bind_exn (getProp data (ascii ''step_name'')) (\<lambda>step_name.
     bind_exn (actionType step_name) (\<lambda>ty.
     bind_exn (getProp data (ascii ''description'')) (\<lambda>descr.
     bind_exn (getProp data (ascii ''status'')) (\<lambda>st.
     bind_exn (getProp data (ascii ''timestamp'')) (\<lambda>ts.
       (case step_name of
          JStr t \<Rightarrow>
            Inr \<lparr> actId = ascii ''action-'' @ toString (now e) @ ascii ''-'' @ random e,
                  actType = ty,
                  title = t,
                  description = descr,
                  status = actionStatus st,
                  actTimestamp = DateOf ts,
                  duration = None \<rparr>
        | _ \<Rightarrow> Inl TypeError))))))"

text \<open>\<open>prev.findIndex(P)\<close>, with \<open>None\<close> for \<open>-1\<close>.\<close>

fun findIndex :: "('a \<Rightarrow> bool) \<Rightarrow> 'a list \<Rightarrow> nat option" where
  "findIndex P [] = None"
| "findIndex P (x # xs) = (if P x then Some 0 else map_option Suc (findIndex P xs))"

text \<open>
  \<open>{ ...old, ...newAction }\<close>: \<open>newAction\<close> has every key but \<open>duration\<close>, so the
  merged object is \<open>newAction\<close> with the old duration.
\<close>

definition mergeAction :: "agent_action \<Rightarrow> agent_action \<Rightarrow> agent_action" where
  "mergeAction old new = new \<lparr> duration := duration old \<rparr>"

text \<open>The updater handed to \<open>setAgentActions\<close> for a step event.\<close>

definition updateActions :: "agent_action \<Rightarrow> agent_action list \<Rightarrow> agent_action list" where
  "updateActions new prev =
     (case findIndex (\<lambda>a. title a = title new) prev of
        Some existingIndex \<Rightarrow> prev[existingIndex := mergeAction (prev ! existingIndex) new]
      | None \<Rightarrow> prev @ [new])"

text \<open>
  The body of the inner \<open>try\<close> after \<open>JSON.parse\<close>. The result is an exception, or
  the state with \<open>Some v\<close> when the handler returns \<open>v\<close> and \<open>None\<close> when the loop goes
  on. No state is written before a \<open>throw\<close>.
\<close>

definition handleData :: "env \<Rightarrow> json \<Rightarrow> page \<Rightarrow> exn + (page \<times> jsval option)" where
  "handleData e data s =
     bind_exn (getProp data (ascii ''type'')) (\<lambda>ty.
       if ty = JStr (ascii ''step'') then
         bind_exn (newAction e data) (\<lambda>a.
           Inr (s \<lparr> agentActions := updateActions a (agentActions s) \<rparr>, None))
       else if ty = JStr (ascii ''final'') then
         bind_exn (getProp data (ascii ''response'')) (\<lambda>response.
         bind_exn (truthyAndLengthGt response 500) (\<lambda>long.
           let s1 = (if long
                     then s \<lparr> currentReport := response,
                              reportTitle := txt_report_prefix @ localeDate e,
                              showReportPanel := True \<rparr>
                     else s);
               s2 = s1 \<lparr> timers := timers s1 @ [(2000, HideAgentPanel)] \<rparr>
           in Inr (s2, Some response)))
       else if ty = JStr (ascii ''error'') then
         bind_exn (getProp data (ascii ''message'')) (\<lambda>msg. Inl (Error msg))
       else Inr (s, None))"

text \<open>
  One line of a chunk: only a line that starts with \<open>'data: '\<close> is parsed, and the
  inner \<open>catch\<close> logs and swallows whatever the \<open>try\<close> throws.
\<close>

definition processLine ::
  "(jstring \<Rightarrow> json option) \<Rightarrow> env \<Rightarrow> jstring \<Rightarrow> page \<Rightarrow> page \<times> jsval option" where
  "processLine parse e line s =
     (if startsWith line (ascii ''data: '') then
        (case parse (trim (slice 6 line)) of
           None \<Rightarrow> (s, None)
         | Some data \<Rightarrow>
             (case handleData e data s of
                Inl err \<Rightarrow> (s, None)
              | Inr r \<Rightarrow> r))
      else (s, None))"

text \<open>\<open>for (const line of lines)\<close>, left by the \<open>return\<close> of a final event.\<close>

fun processLines ::
  "(jstring \<Rightarrow> json option) \<Rightarrow> env \<Rightarrow> jstring list \<Rightarrow> page \<Rightarrow> page \<times> jsval option" where
  "processLines parse e [] s = (s, None)"
| "processLines parse e (line # lines) s =
     (case processLine parse e line s of
        (s', Some v) \<Rightarrow> (s', Some v)
      | (s', None) \<Rightarrow> processLines parse e lines s')"

text \<open>
  \<open>while (true)\<close> over the reads of the body: each chunk is split on the newline and
  its lines are processed; \<open>done\<close> leaves the loop and the handler returns undefined.
\<close>

fun readLoop ::
  "(jstring \<Rightarrow> json option) \<Rightarrow> env \<Rightarrow> jstring list \<Rightarrow> stream_end \<Rightarrow> page
     \<Rightarrow> page \<times> (exn + jsval)" where
  "readLoop parse e [] Done s = (s, Inr JUndefined)"
| "readLoop parse e [] ReadRejected s = (s, Inl NetworkError)"
| "readLoop parse e (chunk # chunks) fin s =
     (case processLines parse e (split_js newline chunk) s of
        (s', Some v) \<Rightarrow> (s', Inr v)
      | (s', None) \<Rightarrow> readLoop parse e chunks fin s')"

definition streamRequest :: "jstring \<Rightarrow> request" where
  "streamRequest query =
     \<lparr> url = ascii ''http://localhost:8000/api/chat/stream'',
       reqMessage = query,
       conversation_id = ascii ''default'' \<rparr>"

text \<open>The action appended by the outer \<open>catch\<close>.\<close>

definition errorAction :: "env \<Rightarrow> agent_action" where
  "errorAction e =
     \<lparr> actId = ascii ''error-'' @ toString (now e),
       actType = Complete,
       title = txt_error_title,
       description = JStr txt_error_description,
       status = Failed,
       actTimestamp = DateNow (now e),
       duration = None \<rparr>"

text \<open>
  \<open>handleAgentStream(query)\<close>, given what the network answers: the state after it, and
  the value it returns (\<open>Inr\<close>) or the exception it rethrows (\<open>Inl\<close>).
\<close>

definition handleAgentStream ::
  "(jstring \<Rightarrow> json option) \<Rightarrow> env \<Rightarrow> jstring \<Rightarrow> fetch_result \<Rightarrow> page
     \<Rightarrow> page \<times> (exn + jsval)" where
  "handleAgentStream parse e query answer s =
     (let s0 = s \<lparr> showAgentPanel := True, agentActions := [] \<rparr>;
          s1 = s0 \<lparr> requests := requests s0 @ [streamRequest query] \<rparr>;
          (s2, r) =
            (case answer of
               FetchRejected \<Rightarrow> (s1, Inl NetworkError)
             | NotOk \<Rightarrow> (s1, Inl (Error (JStr (ascii ''Stream request failed''))))
             | NoBody \<Rightarrow> (s1, Inl (Error (JStr (ascii ''No reader available''))))
             | Body chunks fin \<Rightarrow> readLoop parse e chunks fin s1)
      in case r of
           Inl err \<Rightarrow> (s2 \<lparr> agentActions := agentActions s2 @ [errorAction e] \<rparr>, Inl err)
         | Inr v \<Rightarrow> (s2, Inr v))"

section \<open>Sending a message\<close>

definition userMessage :: "env \<Rightarrow> jstring \<Rightarrow> message" where
  "userMessage e input =
     \<lparr> msgId = toString (now e), msgType = User, content = JStr input,
       msgTimestamp = DateNow (now e), msgIsLoading = None \<rparr>"

definition loadingMessage :: "env \<Rightarrow> message" where
  "loadingMessage e =
     \<lparr> msgId = toString (now e + 1), msgType = Bot, content = JStr txt_loading,
       msgTimestamp = DateNow (now e), msgIsLoading = Some True \<rparr>"

definition botMessage :: "env \<Rightarrow> jsval \<Rightarrow> message" where
  "botMessage e c =
     \<lparr> msgId = toString (now e + 2), msgType = Bot, content = c,
       msgTimestamp = DateNow (now e), msgIsLoading = None \<rparr>"

text \<open>\<open>!msg.isLoading\<close>: true of a message without the field.\<close>

definition notLoading :: "message \<Rightarrow> bool" where
  "notLoading m = (msgIsLoading m \<noteq> Some True)"

text \<open>
  The updater of the three \<open>setMessages\<close> calls that end a send: drop the loading
  messages, append one bot message.
\<close>

definition replaceLoading :: "env \<Rightarrow> jsval \<Rightarrow> message list \<Rightarrow> message list" where
  "replaceLoading e c prev = filter notLoading prev @ [botMessage e c]"

definition chatRequest :: "jstring \<Rightarrow> request" where
  "chatRequest query =
     \<lparr> url = ascii ''http://localhost:8000/api/chat'',
       reqMessage = query,
       conversation_id = ascii ''default'' \<rparr>"

text \<open>\<open>response.data.response\<close>\<close>

fun replyResponse :: "reply_data \<Rightarrow> jsval" where
  "replyResponse (ObjectData kvs) =
     (case map_of kvs (ascii ''response'') of None \<Rightarrow> JUndefined | Some v \<Rightarrow> v)"
| "replyResponse OtherData = JUndefined"

text \<open>\<open>a || b\<close>\<close>

definition orElse :: "jsval \<Rightarrow> jsval \<Rightarrow> jsval" where
  "orElse a b = (if truthy a then a else b)"

text \<open>The \<open>catch\<close> branch of \<open>handleSendMessage\<close>.\<close>

definition catchSend :: "env \<Rightarrow> page \<Rightarrow> page" where
  "catchSend e s = s \<lparr> messages := replaceLoading e (JStr txt_unavailable) (messages s) \<rparr>"

text \<open>
  The \<open>else\<close> branch of \<open>handleSendMessage\<close>: without a final response the query is
  posted to the chat endpoint.
\<close>

definition fallbackChat :: "env \<Rightarrow> jstring \<Rightarrow> axios_result \<Rightarrow> page \<Rightarrow> page" where
  "fallbackChat e query reply s =
     (let s1 = s \<lparr> requests := requests s @ [chatRequest query] \<rparr>
      in case reply of
           AxiosRejected \<Rightarrow> catchSend e s1
         | AxiosResolved d \<Rightarrow>
             (let response = replyResponse d;
                  s2 = s1 \<lparr> messages :=
                         replaceLoading e (orElse response (JStr txt_cannot_process)) (messages s1) \<rparr>
              in case truthyAndLengthGt response 500 of
                   Inl err \<Rightarrow> catchSend e s2
                 | Inr long \<Rightarrow>
                     (if long
                      then s2 \<lparr> currentReport := response,
                                reportTitle := txt_report_prefix @ localeDate e,
                                showReportPanel := True \<rparr>
                      else s2)))"

text \<open>\<open>!inputValue.trim() || isLoading\<close>, the guard of both versions of the handler.\<close>

definition sendBlocked :: "page \<Rightarrow> bool" where
  "sendBlocked s = (trim (inputValue s) = [] \<or> isLoading s)"

text \<open>
  The synchronous part of \<open>handleSendMessage\<close>, up to the first \<open>await\<close>: the state the
  page shows while the request is in flight.
\<close>

definition beginSend :: "env \<Rightarrow> page \<Rightarrow> page" where
  "beginSend e s =
     (let s1 = s \<lparr> messages := messages s @ [userMessage e (inputValue s)],
                    inputValue := [],
                    isLoading := True,
                    showAgentPanel := True,
                    agentActions := [],
                    currentReport := JStr [],
                    showReportPanel := False \<rparr>
      in s1 \<lparr> messages := messages s1 @ [loadingMessage e] \<rparr>)"

text \<open>
  \<open>handleSendMessage\<close> of the chat page, given what the stream and the chat endpoint
  answer. The \<open>finally\<close> branch ends every path that passed the guard.
\<close>

definition handleSendMessage ::
  "(jstring \<Rightarrow> json option) \<Rightarrow> env \<Rightarrow> fetch_result \<Rightarrow> axios_result \<Rightarrow> page \<Rightarrow> page" where
  "handleSendMessage parse e answer reply s =
     (if sendBlocked s then s
      else
        (let currentQuery = inputValue s;
             (s3, r) = handleAgentStream parse e currentQuery answer (beginSend e s);
             s4 = (case r of
                     Inl err \<Rightarrow> catchSend e s3
                   | Inr finalResponse \<Rightarrow>
                       (if truthy finalResponse
                        then s3 \<lparr> messages := replaceLoading e finalResponse (messages s3) \<rparr>
                        else fallbackChat e currentQuery reply s3))
         in s4 \<lparr> isLoading := False \<rparr>))"

section \<open>The earlier page with simulated actions\<close>

definition txt_search_title :: jstring where
  "txt_search_title = [0x641C, 0x7D22, 0x4F01, 0x4E1A, 0x4FE1, 0x606F]"

definition txt_search_description :: "jstring \<Rightarrow> jstring" where
  "txt_search_description query =
     [0x6B63, 0x5728, 0x641C, 0x7D22, 0x22] @ query @
     [0x22, 0x7684, 0x76F8, 0x5173, 0x4F01, 0x4E1A, 0x6570, 0x636E, 0x2E, 0x2E, 0x2E]"

definition txt_analyze_title :: jstring where
  "txt_analyze_title = [0x6570, 0x636E, 0x5206, 0x6790]"

definition txt_analyze_description :: jstring where
  "txt_analyze_description =
     [0x5206, 0x6790, 0x4F01, 0x4E1A, 0x8D22, 0x52A1, 0x6570, 0x636E, 0x3001, 0x5E02,
      0x573A, 0x8868, 0x73B0, 0x548C, 0x884C, 0x4E1A, 0x5730, 0x4F4D, 0x2E, 0x2E, 0x2E]"

definition txt_generate_title :: jstring where
  "txt_generate_title = [0x751F, 0x6210, 0x62A5, 0x544A]"

definition txt_generate_description :: jstring where
  "txt_generate_description =
     [0x57FA, 0x4E8E, 0x5206, 0x6790, 0x7ED3, 0x679C, 0x751F, 0x6210] @
     ascii ''comprehensive'' @
     [0x4F01, 0x4E1A, 0x5206, 0x6790, 0x62A5, 0x544A, 0x2E, 0x2E, 0x2E]"

text \<open>
  \<open>simulateAgentActions(query)\<close>: the panel is opened and emptied, and one timer per
  canned action is set, \<open>index * 800\<close> milliseconds ahead. The callbacks, which run
  later, write to the action list only.
\<close>

definition simulateAgentActions :: "jstring \<Rightarrow> page \<Rightarrow> page" where
  "simulateAgentActions query s =
     (let s0 = s \<lparr> showAgentPanel := True, agentActions := [] \<rparr>
      in s0 \<lparr> timers := timers s0 @
           [(0 * 800, SimulatedAction 0 Search txt_search_title (txt_search_description query)),
            (1 * 800, SimulatedAction 1 Analyze txt_analyze_title txt_analyze_description),
            (2 * 800, SimulatedAction 2 Generate txt_generate_title txt_generate_description)] \<rparr>)"

definition chatRequest_relative :: "jstring \<Rightarrow> request" where
  "chatRequest_relative query =
     \<lparr> url = ascii ''/api/chat'',
       reqMessage = query,
       conversation_id = ascii ''default'' \<rparr>"

text \<open>\<open>handleSendMessage\<close> of the earlier page: one request, to the chat endpoint.\<close>

definition handleSendMessage_simulated :: "env \<Rightarrow> axios_result \<Rightarrow> page \<Rightarrow> page" where
  "handleSendMessage_simulated e reply s =
     (if sendBlocked s then s
      else
        (let currentQuery = inputValue s;
             s1 = s \<lparr> messages := messages s @ [userMessage e (inputValue s)],
                        inputValue := [],
                        isLoading := True \<rparr>;
             s2 = simulateAgentActions currentQuery s1;
             s3 = s2 \<lparr> messages := messages s2 @ [loadingMessage e] \<rparr>;
             s4 = s3 \<lparr> requests := requests s3 @ [chatRequest_relative currentQuery] \<rparr>;
             s5 = (case reply of
                     AxiosRejected \<Rightarrow> catchSend e s4
                   | AxiosResolved d \<Rightarrow>
                       s4 \<lparr> messages :=
                         replaceLoading e (orElse (replyResponse d) (JStr txt_cannot_process))
                           (messages s4) \<rparr>)
         in s5 \<lparr> isLoading := False \<rparr>))"

section \<open>What the page renders\<close>

datatype rendering = Markdown | PreWrapped

text \<open>
  The body of a message bubble:
  \<open>message.type === 'bot' && message.content.length > 500\<close> chooses the markdown
  renderer, anything else the pre-wrapped paragraph.
\<close>

definition renderContent :: "message \<Rightarrow> exn + rendering" where
  "renderContent m =
     (if msgType m = Bot
      then bind_exn (lengthGt (content m) 500) (\<lambda>long.
             Inr (if long then Markdown else PreWrapped))
      else Inr PreWrapped)"

text \<open>The report panel is rendered under \<open>showReportPanel && currentReport\<close>.\<close>

definition reportPanelShown :: "page \<Rightarrow> bool" where
  "reportPanelShown s = (showReportPanel s \<and> truthy (currentReport s))"

section \<open>Auxiliary notions for the statements\<close>

text \<open>
  The inverse of \<open>split\<close>: the lines joined with the separator.
\<close>

fun joinLines :: "jschar \<Rightarrow> jstring list \<Rightarrow> jstring" where
  "joinLines sep [] = []"
| "joinLines sep [l] = l"
| "joinLines sep (l # l' # ls) = l @ sep # joinLines sep (l' # ls)"

text \<open>
  Two states agree on the chat: the messages, the input, the loading flag, the
  requests issued and the two panels the stream handler does not write to.
\<close>

definition sameChat :: "page \<Rightarrow> page \<Rightarrow> bool" where
  "sameChat s s' =
     (messages s' = messages s \<and> inputValue s' = inputValue s \<and> isLoading s' = isLoading s
      \<and> requests s' = requests s \<and> showAgentPanel s' = showAgentPanel s
      \<and> showChatHistory s' = showChatHistory s)"

text \<open>
  The requests a handler has added to the log.
\<close>

definition newRequests :: "page \<Rightarrow> page \<Rightarrow> request list" where
  "newRequests s s' = drop (length (requests s)) (requests s')"

text \<open>
  The lines of a sequence of chunks, each chunk split on its own.
\<close>

definition allLines :: "jstring list \<Rightarrow> jstring list" where
  "allLines chunks = concat (map (split_js newline) chunks)"

text \<open>
  What a line carries: the parsed value of a \<open>'data: '\<close> line, the response of a
  final event, the action of a step event whose \<open>newAction\<close> can be built.
\<close>

definition eventOfLine :: "(jstring \<Rightarrow> json option) \<Rightarrow> jstring \<Rightarrow> json option" where
  "eventOfLine parse line =
     (if startsWith line (ascii ''data: '') then parse (trim (slice 6 line)) else None)"

definition hasType :: "json \<Rightarrow> string \<Rightarrow> bool" where
  "hasType data ty = (getProp data (ascii ''type'') = Inr (JStr (ascii ty)))"

definition finalOfLine :: "(jstring \<Rightarrow> json option) \<Rightarrow> jstring \<Rightarrow> jsval option" where
  "finalOfLine parse line =
     (case eventOfLine parse line of
        None \<Rightarrow> None
      | Some data \<Rightarrow>
          (if hasType data ''final''
           then (case getProp data (ascii ''response'') of Inr v \<Rightarrow> Some v | Inl err \<Rightarrow> None)
           else None))"

definition stepOfLine :: "(jstring \<Rightarrow> json option) \<Rightarrow> env \<Rightarrow> jstring \<Rightarrow> agent_action option" where
  "stepOfLine parse e line =
     (case eventOfLine parse line of
        None \<Rightarrow> None
      | Some data \<Rightarrow>
          (if hasType data ''step''
           then (case newAction e data of Inr a \<Rightarrow> Some a | Inl err \<Rightarrow> None)
           else None))"

text \<open>
  \<open>response && response.length > 500\<close> as a predicate on the value.
\<close>

definition isLong :: "jsval \<Rightarrow> bool" where
  "isLong v = (case v of JStr r \<Rightarrow> length r > 500 | _ \<Rightarrow> False)"

text \<open>
  The writes of the final branch (the report when the response is long, and the timer
  that hides the agent panel) and of the step branch.
\<close>

definition applyFinal :: "env \<Rightarrow> jsval \<Rightarrow> page \<Rightarrow> page" where
  "applyFinal e response s =
     (let s1 = (if isLong response
                then s \<lparr> currentReport := response,
                         reportTitle := txt_report_prefix @ localeDate e,
                         showReportPanel := True \<rparr>
                else s)
      in s1 \<lparr> timers := timers s1 @ [(2000, HideAgentPanel)] \<rparr>)"

definition applyStep :: "agent_action \<Rightarrow> page \<Rightarrow> page" where
  "applyStep a s = s \<lparr> agentActions := updateActions a (agentActions s) \<rparr>"

text \<open>
  The updater of \<open>setAgentActions\<close> run over a sequence of step actions, in order.
\<close>

definition applySteps :: "agent_action list \<Rightarrow> agent_action list \<Rightarrow> agent_action list" where
  "applySteps steps prev = foldl (\<lambda>acc a. updateActions a acc) prev steps"

definition runSteps :: "agent_action list \<Rightarrow> page \<Rightarrow> page" where
  "runSteps steps s = s \<lparr> agentActions := applySteps steps (agentActions s) \<rparr>"

text \<open>
  The response of the first final event among some lines, and the step actions of the
  lines before it: the events the handler gets to see.
\<close>

fun firstFinal :: "(jstring \<Rightarrow> json option) \<Rightarrow> jstring list \<Rightarrow> jsval option" where
  "firstFinal parse [] = None"
| "firstFinal parse (line # lines) =
     (case finalOfLine parse line of
        Some v \<Rightarrow> Some v
      | None \<Rightarrow> firstFinal parse lines)"

fun stepsBeforeFinal ::
  "(jstring \<Rightarrow> json option) \<Rightarrow> env \<Rightarrow> jstring list \<Rightarrow> agent_action list" where
  "stepsBeforeFinal parse e [] = []"
| "stepsBeforeFinal parse e (line # lines) =
     (case finalOfLine parse line of
        Some v \<Rightarrow> []
      | None \<Rightarrow>
          (case stepOfLine parse e line of
             Some a \<Rightarrow> a # stepsBeforeFinal parse e lines
           | None \<Rightarrow> stepsBeforeFinal parse e lines))"

text \<open>
  How the loop ends when no final event came: \<open>done\<close>, or a rejected read.
\<close>

definition endResult :: "stream_end \<Rightarrow> exn + jsval" where
  "endResult fin = (case fin of Done \<Rightarrow> Inr JUndefined | ReadRejected \<Rightarrow> Inl NetworkError)"

text \<open>
  What \<open>handleAgentStream\<close> returns or throws, as a function of the answer alone.
\<close>

fun streamResult :: "(jstring \<Rightarrow> json option) \<Rightarrow> fetch_result \<Rightarrow> exn + jsval" where
  "streamResult parse FetchRejected = Inl NetworkError"
| "streamResult parse NotOk = Inl (Error (JStr (ascii ''Stream request failed'')))"
| "streamResult parse NoBody = Inl (Error (JStr (ascii ''No reader available'')))"
| "streamResult parse (Body chunks fin) =
     (case firstFinal parse (allLines chunks) of
        Some v \<Rightarrow> Inr v
      | None \<Rightarrow> endResult fin)"


section \<open>The initial state and example inputs\<close>

text \<open>
  The greeting of the first message, and the \<open>useState\<close> initial values.
\<close>

definition txt_greeting :: jstring where
  "txt_greeting =
     [0x60A8, 0x597D, 0xFF01, 0x6211, 0x662F] @ ascii ''NexMind'' @
     [0x667A, 0x80FD, 0x5206, 0x6790, 0x52A9, 0x624B, 0x3002, 0x8BF7, 0x544A, 0x8BC9,
      0x6211, 0x60A8, 0x60F3, 0x4E86, 0x89E3, 0x54EA, 0x5BB6, 0x4E2D, 0x56FD, 0x516C,
      0x53F8, 0x7684, 0x8BE6, 0x7EC6, 0x4FE1, 0x606F, 0xFF0C, 0x6211, 0x5C06, 0x4E3A,
      0x60A8, 0x751F, 0x6210] @ ascii ''comprehensive'' @
     [0x7684, 0x4F01, 0x4E1A, 0x5206, 0x6790, 0x62A5, 0x544A, 0x3002]"

definition initialPage :: "env \<Rightarrow> page" where
  "initialPage e =
     \<lparr> messages = [\<lparr> msgId = ascii ''1'', msgType = Bot, content = JStr txt_greeting,
                      msgTimestamp = DateNow (now e), msgIsLoading = None \<rparr>],
       inputValue = [],
       isLoading = False,
       agentActions = [],
       showAgentPanel = False,
       showChatHistory = False,
       showReportPanel = False,
       currentReport = JStr [],
       reportTitle = [],
       requests = [],
       timers = [] \<rparr>"

text \<open>
  A reading of the environment, and the page after the user has typed.
\<close>

definition demoEnv :: env where
  "demoEnv = \<lparr> now = 1700000000000, random = ascii ''0.25'', localeDate = ascii ''2025/1/1'' \<rparr>"

definition typedPage :: "jstring \<Rightarrow> page" where
  "typedPage input = (initialPage demoEnv) \<lparr> inputValue := input \<rparr>"

text \<open>
  Server-sent events as the stream carries them, \<open>data: <json>\<close> followed by an
  empty line, with the JSON texts used below and their parsed values. \<open>demoParse\<close>
  agrees with \<open>JSON.parse\<close> on these texts.
\<close>

definition dataLine :: "jstring \<Rightarrow> jstring" where
  "dataLine payload = ascii ''data: '' @ payload"

definition sseChunk :: "jstring \<Rightarrow> jstring" where
  "sseChunk payload = dataLine payload @ [newline, newline]"

definition txtStepSearchRunning :: jstring where
  \<open>txtStepSearchRunning =
     ascii ''{"type":"step","step_name":"'' @ kw_search @ ascii ''","status":"running"}''\<close>

definition evStepSearchRunning :: json where
  "evStepSearchRunning =
     JObject [(ascii ''type'', JStr (ascii ''step'')), (ascii ''step_name'', JStr kw_search),
              (ascii ''status'', JStr (ascii ''running''))]"

definition txtStepSearchCompleted :: jstring where
  \<open>txtStepSearchCompleted =
     ascii ''{"type":"step","step_name":"'' @ kw_search @ ascii ''","status":"completed"}''\<close>

definition evStepSearchCompleted :: json where
  "evStepSearchCompleted =
     JObject [(ascii ''type'', JStr (ascii ''step'')), (ascii ''step_name'', JStr kw_search),
              (ascii ''status'', JStr (ascii ''completed''))]"

definition txtFinalShort :: jstring where
  \<open>txtFinalShort = ascii ''{"type":"final","response":"ok"}''\<close>

definition evFinalShort :: json where
  "evFinalShort =
     JObject [(ascii ''type'', JStr (ascii ''final'')), (ascii ''response'', JStr (ascii ''ok''))]"

definition txtError :: jstring where
  \<open>txtError = ascii ''{"type":"error","message":"boom"}''\<close>

definition evError :: json where
  "evError =
     JObject [(ascii ''type'', JStr (ascii ''error'')), (ascii ''message'', JStr (ascii ''boom''))]"

definition txtStepNoName :: jstring where
  \<open>txtStepNoName = ascii ''{"type":"step"}''\<close>

definition evStepNoName :: json where
  "evStepNoName = JObject [(ascii ''type'', JStr (ascii ''step''))]"

definition txtFinalSecond :: jstring where
  \<open>txtFinalSecond = ascii ''{"type":"final","response":"second"}''\<close>

definition evFinalSecond :: json where
  "evFinalSecond =
     JObject [(ascii ''type'', JStr (ascii ''final'')),
              (ascii ''response'', JStr (ascii ''second''))]"

definition demoParse :: "jstring \<Rightarrow> json option" where
  "demoParse txt =
     map_of [(txtStepSearchRunning, evStepSearchRunning),
             (txtStepSearchCompleted, evStepSearchCompleted),
             (txtFinalShort, evFinalShort),
             (txtError, evError),
             (txtStepNoName, evStepNoName),
             (txtFinalSecond, evFinalSecond)] txt"

text \<open>
  The final event above as the transport may deliver it, cut after 28 code units: the
  two reads together are the event, neither holds the whole line.
\<close>

definition finalHead :: jstring where
  "finalHead = take 28 (sseChunk txtFinalShort)"

definition finalTail :: jstring where
  "finalTail = drop 28 (sseChunk txtFinalShort)"




text \<open>
  The name of the planning stage in the development guide (U+89C4 U+5212), and a
  response of 501 code units.
\<close>

definition txt_plan_stage :: jstring where
  "txt_plan_stage = [0x89C4, 0x5212]"

definition longReport :: jstring where
  "longReport = replicate 501 0x41"

section \<open>Facts about the string operations\<close>

lemma startsWith_prefix: "startsWith s p \<longleftrightarrow> prefix p s"
  unfolding startsWith_def prefix_def
  by (metis append_eq_conv_conj)

lemma includes_js_sublist: "includes_js s p \<longleftrightarrow> sublist p s"
  by (induction s) (auto simp: startsWith_prefix sublist_Cons_right)

lemma dropWhile_all_iff: "(\<forall>c\<in>set (dropWhile P s). P c) \<longleftrightarrow> (\<forall>c\<in>set s. P c)"
proof
  assume h: "\<forall>c\<in>set (dropWhile P s). P c"
  have "dropWhile P s = []"
  proof (cases "dropWhile P s")
    case Nil
    then show ?thesis .
  next
    case (Cons x xs)
    then have "\<not> P x" using hd_dropWhile [of P s] by simp
    moreover have "P x" using h Cons by simp
    ultimately show ?thesis by simp
  qed
  then show "\<forall>c\<in>set s. P c" by simp
next
  assume "\<forall>c\<in>set s. P c"
  then show "\<forall>c\<in>set (dropWhile P s). P c" by (meson set_dropWhileD)
qed

lemma trim_empty_iff: "trim s = [] \<longleftrightarrow> (\<forall>c\<in>set s. isWhiteSpace c)"
proof -
  have "trim s = [] \<longleftrightarrow> (\<forall>c\<in>set (dropWhile isWhiteSpace s). isWhiteSpace c)"
    by (simp add: trim_def)
  then show ?thesis by (simp only: dropWhile_all_iff)
qed

lemma split_js_nonempty: "split_js sep s \<noteq> []"
  by (induction s) (auto split: list.splits)

lemma joinLines_Cons: "joinLines sep ((a # l) # ls) = a # joinLines sep (l # ls)"
  by (cases ls) simp_all

lemma split_js_join: "joinLines sep (split_js sep s) = s"
  by (induction s) (auto split: list.splits simp: split_js_nonempty joinLines_Cons)

lemma split_js_no_sep: "l \<in> set (split_js sep s) \<Longrightarrow> sep \<notin> set l"
  by (induction s arbitrary: l) (auto split: list.splits if_splits)

lemma split_js_append:
  "sep \<notin> set xs \<Longrightarrow> split_js sep (xs @ sep # ys) = xs # split_js sep ys"
  by (induction xs) auto

lemma split_js_whole: "sep \<notin> set xs \<Longrightarrow> split_js sep xs = [xs]"
  by (induction xs) auto

lemma ascii_neq [simp]:
  "ascii ''step'' \<noteq> ascii ''final''" "ascii ''final'' \<noteq> ascii ''step''"
  "ascii ''step'' \<noteq> ascii ''error''" "ascii ''error'' \<noteq> ascii ''step''"
  "ascii ''final'' \<noteq> ascii ''error''" "ascii ''error'' \<noteq> ascii ''final''"
  by (simp_all add: ascii_def)

section \<open>The stream handler leaves the chat alone\<close>

lemma sameChat_refl: "sameChat s s"
  by (simp add: sameChat_def)

lemma sameChat_trans: "sameChat s s' \<Longrightarrow> sameChat s' s'' \<Longrightarrow> sameChat s s''"
  by (simp add: sameChat_def)

lemma handleData_sameChat:
  assumes "handleData e data s = Inr (s', r)"
  shows "sameChat s s'"
  using assms
  by (auto simp: handleData_def bind_exn_def sameChat_def Let_def
           split: sum.splits if_splits)

lemma processLine_sameChat:
  assumes "processLine parse e line s = (s', r)"
  shows "sameChat s s'"
  using assms handleData_sameChat
  by (auto simp: processLine_def sameChat_refl split: if_splits option.splits sum.splits)

lemma processLines_sameChat:
  "processLines parse e lines s = (s', r) \<Longrightarrow> sameChat s s'"
proof (induction lines arbitrary: s)
  case Nil
  then show ?case by (simp add: sameChat_refl)
next
  case (Cons line lines)
  obtain s1 r1 where l: "processLine parse e line s = (s1, r1)"
    by (cases "processLine parse e line s")
  have a: "sameChat s s1" using l by (rule processLine_sameChat)
  show ?case
  proof (cases r1)
    case None
    with Cons l have "sameChat s1 s'" by simp
    with a show ?thesis by (rule sameChat_trans)
  next
    case (Some v)
    with Cons.prems l have "s' = s1" by simp
    with a show ?thesis by simp
  qed
qed

lemma readLoop_sameChat:
  "readLoop parse e chunks fin s = (s', r) \<Longrightarrow> sameChat s s'"
proof (induction chunks arbitrary: s)
  case Nil
  then show ?case by (cases fin) (auto simp: sameChat_refl)
next
  case (Cons chunk chunks)
  obtain s1 r1 where l: "processLines parse e (split_js newline chunk) s = (s1, r1)"
    by (cases "processLines parse e (split_js newline chunk) s")
  have a: "sameChat s s1" using l by (rule processLines_sameChat)
  show ?case
  proof (cases r1)
    case None
    with Cons l have "sameChat s1 s'" by simp
    with a show ?thesis by (rule sameChat_trans)
  next
    case (Some v)
    with Cons.prems l have "s' = s1" by simp
    with a show ?thesis by simp
  qed
qed

lemma handleAgentStream_chat:
  assumes "handleAgentStream parse e query answer s = (s', r)"
  shows "messages s' = messages s \<and> inputValue s' = inputValue s \<and> isLoading s' = isLoading s
         \<and> requests s' = requests s @ [streamRequest query]"
proof -
  let ?s1 = "s \<lparr> showAgentPanel := True, agentActions := [],
                  requests := requests s @ [streamRequest query] \<rparr>"
  show ?thesis
  proof (cases answer)
    case (Body chunks fin)
    obtain s2 r2 where l: "readLoop parse e chunks fin ?s1 = (s2, r2)"
      by (cases "readLoop parse e chunks fin ?s1")
    have "sameChat ?s1 s2" using l by (rule readLoop_sameChat)
    then show ?thesis using assms Body l
      by (auto simp: handleAgentStream_def sameChat_def split: sum.splits)
  qed (use assms in \<open>auto simp: handleAgentStream_def\<close>)
qed

section \<open>The stream handler in terms of the events it sees\<close>

lemma truthyAndLengthGt_isLong: "truthyAndLengthGt v 500 = Inr (isLong v)"
  by (cases v) (auto simp: truthyAndLengthGt_def isLong_def)

lemma getProp_type_ok:
  "getProp data p = Inr v \<Longrightarrow> \<exists>w. getProp data q = Inr w"
  by (cases "(data, p)" rule: getProp.cases) auto

lemma processLine_char:
  "processLine parse e line s =
     (case finalOfLine parse line of
        Some v \<Rightarrow> (applyFinal e v s, Some v)
      | None \<Rightarrow>
          (case stepOfLine parse e line of
             Some a \<Rightarrow> (applyStep a s, None)
           | None \<Rightarrow> (s, None)))"
proof (cases "eventOfLine parse line")
  case None
  then show ?thesis
    by (auto simp: processLine_def finalOfLine_def stepOfLine_def eventOfLine_def
             split: if_splits)
next
  case (Some data)
  then have p: "startsWith line (ascii ''data: '')" "parse (trim (slice 6 line)) = Some data"
    by (auto simp: eventOfLine_def split: if_splits)
  show ?thesis
  proof (cases "getProp data (ascii ''type'')")
    case (Inl err)
    then show ?thesis using Some p
      by (simp add: processLine_def finalOfLine_def stepOfLine_def hasType_def
            handleData_def bind_exn_def)
  next
    case (Inr ty)
    then obtain resp where r: "getProp data (ascii ''response'') = Inr resp"
      using getProp_type_ok by blast
    obtain msg where m: "getProp data (ascii ''message'') = Inr msg"
      using Inr getProp_type_ok by blast
    show ?thesis using Some p Inr r m
      by (auto simp: processLine_def finalOfLine_def stepOfLine_def hasType_def
            handleData_def bind_exn_def truthyAndLengthGt_isLong applyFinal_def applyStep_def
            Let_def split: sum.splits)
  qed
qed

lemma runSteps_Nil: "runSteps [] s = s"
  by (simp add: runSteps_def applySteps_def)

lemma runSteps_Cons: "runSteps (a # steps) s = runSteps steps (applyStep a s)"
  by (simp add: runSteps_def applySteps_def applyStep_def)

lemma processLines_char:
  "processLines parse e lines s =
     (case firstFinal parse lines of
        None \<Rightarrow> (runSteps (stepsBeforeFinal parse e lines) s, None)
      | Some v \<Rightarrow> (applyFinal e v (runSteps (stepsBeforeFinal parse e lines) s), Some v))"
proof (induction lines arbitrary: s)
  case Nil
  then show ?case by (simp add: runSteps_Nil)
next
  case (Cons line lines)
  show ?case
  proof (cases "finalOfLine parse line")
    case (Some v)
    then show ?thesis by (simp add: processLine_char runSteps_Nil)
  next
    case None
    then show ?thesis
      by (cases "stepOfLine parse e line")
         (simp_all add: processLine_char Cons.IH runSteps_Cons split: option.splits)
  qed
qed

lemma firstFinal_append:
  "firstFinal parse (xs @ ys) =
     (case firstFinal parse xs of Some v \<Rightarrow> Some v | None \<Rightarrow> firstFinal parse ys)"
  by (induction xs) (auto split: option.splits)

lemma stepsBeforeFinal_append:
  "stepsBeforeFinal parse e (xs @ ys) =
     (case firstFinal parse xs of
        Some v \<Rightarrow> stepsBeforeFinal parse e xs
      | None \<Rightarrow> stepsBeforeFinal parse e xs @ stepsBeforeFinal parse e ys)"
  by (induction xs) (auto split: option.splits)

lemma applySteps_append:
  "applySteps (xs @ ys) prev = applySteps ys (applySteps xs prev)"
  by (simp add: applySteps_def)

lemma runSteps_append: "runSteps (xs @ ys) s = runSteps ys (runSteps xs s)"
  by (simp add: runSteps_def applySteps_append)

lemma readLoop_char:
  "readLoop parse e chunks fin s =
     (case firstFinal parse (allLines chunks) of
        None \<Rightarrow> (runSteps (stepsBeforeFinal parse e (allLines chunks)) s, endResult fin)
      | Some v \<Rightarrow>
          (applyFinal e v (runSteps (stepsBeforeFinal parse e (allLines chunks)) s), Inr v))"
proof (induction chunks arbitrary: s)
  case Nil
  then show ?case
    by (cases fin) (simp_all add: allLines_def runSteps_Nil endResult_def)
next
  case (Cons chunk chunks)
  have al: "allLines (chunk # chunks) = split_js newline chunk @ allLines chunks"
    by (simp add: allLines_def)
  show ?case
  proof (cases "firstFinal parse (split_js newline chunk)")
    case (Some v)
    then show ?thesis
      by (simp add: al processLines_char firstFinal_append stepsBeforeFinal_append)
  next
    case None
    then show ?thesis
      by (simp add: al processLines_char firstFinal_append stepsBeforeFinal_append
            Cons.IH runSteps_append split: option.splits)
  qed
qed

lemma agentActions_runSteps [simp]:
  "agentActions (runSteps steps s) = applySteps steps (agentActions s)"
  by (simp add: runSteps_def)

lemma agentActions_applyFinal [simp]: "agentActions (applyFinal e v s) = agentActions s"
  by (simp add: applyFinal_def Let_def)

lemma report_applyFinal:
  "showReportPanel (applyFinal e v s) = (isLong v \<or> showReportPanel s)"
  "currentReport (applyFinal e v s) = (if isLong v then v else currentReport s)"
  by (simp_all add: applyFinal_def Let_def)

lemma report_runSteps [simp]:
  "showReportPanel (runSteps steps s) = showReportPanel s"
  "currentReport (runSteps steps s) = currentReport s"
  by (simp_all add: runSteps_def)

lemma readLoop_result: "snd (readLoop parse e chunks fin s) = streamResult parse (Body chunks fin)"
  by (simp add: readLoop_char split: option.splits)

lemma readLoop_actions:
  "agentActions (fst (readLoop parse e chunks fin s)) =
     applySteps (stepsBeforeFinal parse e (allLines chunks)) (agentActions s)"
  by (simp add: readLoop_char split: option.splits)

lemma isLong_endResult: "endResult fin = Inr v \<Longrightarrow> \<not> isLong v"
  by (cases fin) (auto simp: endResult_def isLong_def)

lemma readLoop_report:
  assumes "readLoop parse e chunks fin s = (s', r)"
  shows "showReportPanel s' = ((case r of Inr v \<Rightarrow> isLong v | Inl err \<Rightarrow> False) \<or> showReportPanel s)"
    and "currentReport s' = (case r of Inr v \<Rightarrow> if isLong v then v else currentReport s
                                      | Inl err \<Rightarrow> currentReport s)"
  using assms isLong_endResult [of fin]
  by (auto simp: readLoop_char report_applyFinal split: option.splits sum.splits)

lemma handleAgentStream_result:
  "snd (handleAgentStream parse e query answer s) = streamResult parse answer"
proof (cases answer)
  case (Body chunks fin)
  let ?s1 = "s \<lparr> showAgentPanel := True, agentActions := [],
                  requests := requests s @ [streamRequest query] \<rparr>"
  obtain s2 r where l: "readLoop parse e chunks fin ?s1 = (s2, r)"
    by (cases "readLoop parse e chunks fin ?s1")
  have "snd (handleAgentStream parse e query answer s) = r" using Body l
    by (cases r) (simp_all add: handleAgentStream_def)
  moreover have "r = streamResult parse (Body chunks fin)"
    using l readLoop_result [of parse e chunks fin ?s1] by simp
  ultimately show ?thesis using Body by simp
qed (simp_all add: handleAgentStream_def)

lemma handleAgentStream_report:
  assumes "handleAgentStream parse e query answer s = (s', r)"
  shows "showReportPanel s' = ((case r of Inr v \<Rightarrow> isLong v | Inl err \<Rightarrow> False) \<or> showReportPanel s)"
    and "currentReport s' = (case r of Inr v \<Rightarrow> if isLong v then v else currentReport s
                                      | Inl err \<Rightarrow> currentReport s)"
proof -
  let ?s1 = "s \<lparr> showAgentPanel := True, agentActions := [],
                  requests := requests s @ [streamRequest query] \<rparr>"
  have "showReportPanel s' = ((case r of Inr v \<Rightarrow> isLong v | Inl err \<Rightarrow> False) \<or> showReportPanel s)
      \<and> currentReport s' = (case r of Inr v \<Rightarrow> if isLong v then v else currentReport s
                                      | Inl err \<Rightarrow> currentReport s)"
  proof (cases answer)
    case (Body chunks fin)
    obtain s2 r2 where l: "readLoop parse e chunks fin ?s1 = (s2, r2)"
      by (cases "readLoop parse e chunks fin ?s1")
    from readLoop_report [OF l] show ?thesis using assms Body l
      by (cases r2) (auto simp: handleAgentStream_def)
  qed (use assms in \<open>auto simp: handleAgentStream_def\<close>)
  then show "showReportPanel s' = ((case r of Inr v \<Rightarrow> isLong v | Inl err \<Rightarrow> False) \<or> showReportPanel s)"
    and "currentReport s' = (case r of Inr v \<Rightarrow> if isLong v then v else currentReport s
                                      | Inl err \<Rightarrow> currentReport s)"
    by simp_all
qed

lemma handleAgentStream_actions:
  "agentActions (fst (handleAgentStream parse e query (Body chunks fin) s))
     = applySteps (stepsBeforeFinal parse e (allLines chunks)) []
       @ (case streamResult parse (Body chunks fin) of
            Inl err \<Rightarrow> [errorAction e]
          | Inr v \<Rightarrow> [])"
proof -
  let ?s1 = "s \<lparr> showAgentPanel := True, agentActions := [],
                  requests := requests s @ [streamRequest query] \<rparr>"
  obtain s2 r where l: "readLoop parse e chunks fin ?s1 = (s2, r)"
    by (cases "readLoop parse e chunks fin ?s1")
  have r: "r = streamResult parse (Body chunks fin)"
    using l readLoop_result [of parse e chunks fin ?s1] by simp
  have a: "agentActions s2 = applySteps (stepsBeforeFinal parse e (allLines chunks)) []"
    using l readLoop_actions [of parse e chunks fin ?s1] by simp
  have "agentActions (fst (handleAgentStream parse e query (Body chunks fin) s))
          = agentActions s2 @ (case r of Inl err \<Rightarrow> [errorAction e] | Inr v \<Rightarrow> [])"
    using l by (cases r) (simp_all add: handleAgentStream_def)
  then show ?thesis by (simp only: a r)
qed



lemma firstFinal_split:
  "(\<forall>l\<in>set before. finalOfLine parse l = None) \<Longrightarrow>
   firstFinal parse (before @ line # rest) =
     (case finalOfLine parse line of Some v \<Rightarrow> Some v | None \<Rightarrow> firstFinal parse rest)"
  by (induction before) auto

lemma processLines_filter:
  "processLines parse e lines s
     = processLines parse e (filter (prefix (ascii ''data: '')) lines) s"
proof (induction lines arbitrary: s)
  case Nil
  then show ?case by simp
next
  case (Cons line lines)
  show ?case
  proof (cases "prefix (ascii ''data: '') line")
    case True
    then show ?thesis using Cons.IH by (simp split: prod.splits option.splits)
  next
    case False
    then have "processLine parse e line s = (s, None)"
      by (simp add: processLine_def startsWith_prefix)
    with False show ?thesis using Cons.IH by simp
  qed
qed

section \<open>The updater of the action list\<close>


lemma findIndex_Some:
  "findIndex P xs = Some i \<Longrightarrow> i < length xs \<and> P (xs ! i) \<and> (\<forall>j<i. \<not> P (xs ! j))"
proof (induction xs arbitrary: i)
  case Nil
  then show ?case by simp
next
  case (Cons x xs)
  show ?case
  proof (cases "P x")
    case True
    with Cons.prems show ?thesis by simp
  next
    case False
    with Cons.prems obtain k where k: "findIndex P xs = Some k" "i = Suc k" by auto
    from Cons.IH [OF k(1)] have ih: "k < length xs" "P (xs ! k)" "\<forall>j<k. \<not> P (xs ! j)"
      by simp_all
    have "\<forall>j<Suc k. \<not> P ((x # xs) ! j)"
    proof (intro allI impI)
      fix j assume "j < Suc k"
      then show "\<not> P ((x # xs) ! j)" using False ih(3) by (cases j) simp_all
    qed
    with ih k show ?thesis by simp
  qed
qed


lemma updateActions_cases:
  "updateActions new prev = prev @ [new]
   \<or> (\<exists>i<length prev. title (prev ! i) = title new
        \<and> updateActions new prev = prev[i := mergeAction (prev ! i) new])"
proof (cases "findIndex (\<lambda>a. title a = title new) prev")
  case None
  then show ?thesis by (simp add: updateActions_def)
next
  case (Some i)
  from findIndex_Some [OF Some] Some show ?thesis
    by (auto simp: updateActions_def)
qed






lemma actionType_JStr:
  "actionType (JStr n) =
     Inr (if includes_js n kw_search then Search
          else if includes_js n kw_analyze then Analyze
          else if includes_js n kw_report then Generate
          else Complete)"
  by (simp add: actionType_def bind_exn_def)

lemma actionType_total: "\<exists>ty. actionType (JStr n) = Inr ty"
  by (simp add: actionType_JStr)

lemma four_of_three:
  "\<not> (distinct [ta, tb, tc, td] \<and> Complete \<notin> set [ta, tb, tc, td])"
  by (cases ta; cases tb; cases tc; cases td; simp)


lemma newAction_title:
  assumes "getProp data (ascii ''step_name'') = Inr (JStr t)"
  shows "\<exists>a. newAction e data = Inr a \<and> title a = t"
proof -
  obtain d where d: "getProp data (ascii ''description'') = Inr d"
    using assms getProp_type_ok by blast
  obtain st where st: "getProp data (ascii ''status'') = Inr st"
    using assms getProp_type_ok by blast
  obtain ts where ts: "getProp data (ascii ''timestamp'') = Inr ts"
    using assms getProp_type_ok by blast
  obtain ty where ty: "actionType (JStr t) = Inr ty"
    using actionType_JStr by blast
  show ?thesis using assms d st ts ty
    by (simp add: newAction_def bind_exn_def)
qed

section \<open>The send handler past its guard\<close>

lemma sendBlocked_iff:
  "sendBlocked s \<longleftrightarrow> (\<forall>c\<in>set (inputValue s). isWhiteSpace c) \<or> isLoading s"
  by (simp only: sendBlocked_def trim_empty_iff)

lemma isLoading_beginSend: "isLoading (beginSend e s)"
  by (simp add: beginSend_def Let_def)

lemma beginSend_fields:
  "requests (beginSend e s) = requests s"
  "messages (beginSend e s) = messages s @ [userMessage e (inputValue s), loadingMessage e]"
  "showReportPanel (beginSend e s) = False"
  "currentReport (beginSend e s) = JStr []"
  "agentActions (beginSend e s) = []"
  by (simp_all add: beginSend_def Let_def)

lemma filter_beginSend:
  "filter notLoading (messages (beginSend e s))
     = filter notLoading (messages s) @ [userMessage e (inputValue s)]"
  by (simp add: beginSend_fields notLoading_def userMessage_def loadingMessage_def)

lemma isLong_iff: "isLong v \<longleftrightarrow> (\<exists>r. v = JStr r \<and> length r > 500)"
  by (cases v) (simp_all add: isLong_def)

lemma isLong_truthy: "isLong v \<Longrightarrow> truthy v"
  by (cases v) (auto simp: isLong_def)

lemma catchSend_fields:
  "requests (catchSend e s) = requests s"
  "showReportPanel (catchSend e s) = showReportPanel s"
  "currentReport (catchSend e s) = currentReport s"
  "messages (catchSend e s) = filter notLoading (messages s) @ [botMessage e (JStr txt_unavailable)]"
  "agentActions (catchSend e s) = agentActions s"
  by (simp_all add: catchSend_def replaceLoading_def)

lemma fallbackChat_requests:
  "requests (fallbackChat e q reply s) = requests s @ [chatRequest q]"
  by (cases reply)
     (simp_all add: fallbackChat_def Let_def catchSend_fields truthyAndLengthGt_isLong)

lemma fallbackChat_resolved:
  "showReportPanel (fallbackChat e q (AxiosResolved d) s)
     = (isLong (replyResponse d) \<or> showReportPanel s)"
  "currentReport (fallbackChat e q (AxiosResolved d) s)
     = (if isLong (replyResponse d) then replyResponse d else currentReport s)"
  "messages (fallbackChat e q (AxiosResolved d) s)
     = filter notLoading (messages s)
       @ [botMessage e (orElse (replyResponse d) (JStr txt_cannot_process))]"
  by (simp_all add: fallbackChat_def Let_def truthyAndLengthGt_isLong replaceLoading_def)

lemma handleSendMessage_unblocked:
  assumes "\<not> sendBlocked s"
    and "handleAgentStream parse e (inputValue s) answer (beginSend e s) = (s3, r)"
  shows "handleSendMessage parse e answer reply s =
           (case r of
              Inl err \<Rightarrow> catchSend e s3
            | Inr v \<Rightarrow>
                (if truthy v
                 then s3 \<lparr> messages := replaceLoading e v (messages s3) \<rparr>
                 else fallbackChat e (inputValue s) reply s3)) \<lparr> isLoading := False \<rparr>"
  using assms by (simp add: handleSendMessage_def)

lemma handleSendMessage_requests:
  assumes "\<not> sendBlocked s"
  shows "requests (handleSendMessage parse e answer reply s) =
           requests s @ streamRequest (inputValue s) #
             (case streamResult parse answer of
                Inr v \<Rightarrow> if truthy v then [] else [chatRequest (inputValue s)]
              | Inl err \<Rightarrow> [])"
proof -
  obtain s3 r where st: "handleAgentStream parse e (inputValue s) answer (beginSend e s) = (s3, r)"
    by (cases "handleAgentStream parse e (inputValue s) answer (beginSend e s)")
  have r: "r = streamResult parse answer"
    using st handleAgentStream_result [of parse e "inputValue s" answer "beginSend e s"] by simp
  have q: "requests s3 = requests s @ [streamRequest (inputValue s)]"
    using handleAgentStream_chat [OF st] by (simp add: beginSend_fields)
  show ?thesis
    unfolding handleSendMessage_unblocked [OF assms st] r [symmetric]
    using q by (cases r) (simp_all add: catchSend_fields fallbackChat_requests)
qed

lemma handleSendMessage_simulated_requests:
  assumes "\<not> sendBlocked s"
  shows "requests (handleSendMessage_simulated e reply s)
           = requests s @ [chatRequest_relative (inputValue s)]"
  using assms
  by (cases reply)
     (simp_all add: handleSendMessage_simulated_def Let_def simulateAgentActions_def
        catchSend_fields)

lemma newRequests_append: "requests s' = requests s @ new \<Longrightarrow> newRequests s s' = new"
  by (simp add: newRequests_def)

lemma newRequests_same: "newRequests s s = []"
  by (simp add: newRequests_def)

lemma handleSendMessage_final:
  assumes "\<not> sendBlocked s"
    and "streamResult parse answer = Inr v"
    and "truthy v"
  shows "messages (handleSendMessage parse e answer reply s)
           = filter notLoading (messages s) @ [userMessage e (inputValue s), botMessage e v]"
    and "requests (handleSendMessage parse e answer reply s)
           = requests s @ [streamRequest (inputValue s)]"
    and "showReportPanel (handleSendMessage parse e answer reply s) = isLong v"
    and "currentReport (handleSendMessage parse e answer reply s)
           = (if isLong v then v else JStr [])"
proof -
  obtain s3 r where st: "handleAgentStream parse e (inputValue s) answer (beginSend e s) = (s3, r)"
    by (cases "handleAgentStream parse e (inputValue s) answer (beginSend e s)")
  have r: "r = Inr v"
    using st assms(2) handleAgentStream_result [of parse e "inputValue s" answer "beginSend e s"]
    by simp
  have m: "messages s3 = messages (beginSend e s)"
    using handleAgentStream_chat [OF st] by simp
  have u: "handleSendMessage parse e answer reply s
             = s3 \<lparr> messages := replaceLoading e v (messages s3), isLoading := False \<rparr>"
    using handleSendMessage_unblocked [OF assms(1) st] r assms(3) by simp
  show "messages (handleSendMessage parse e answer reply s)
           = filter notLoading (messages s) @ [userMessage e (inputValue s), botMessage e v]"
    by (simp add: u m replaceLoading_def filter_beginSend)
  show "requests (handleSendMessage parse e answer reply s)
           = requests s @ [streamRequest (inputValue s)]"
    using handleSendMessage_requests [OF assms(1), of parse e answer reply] assms(2,3) by simp
  show "showReportPanel (handleSendMessage parse e answer reply s) = isLong v"
    using handleAgentStream_report(1) [OF st] r by (simp add: u beginSend_fields)
  show "currentReport (handleSendMessage parse e answer reply s)
           = (if isLong v then v else JStr [])"
    using handleAgentStream_report(2) [OF st] r by (simp add: u beginSend_fields)
qed

lemma handleSendMessage_fallback:
  assumes "\<not> sendBlocked s"
    and "streamResult parse answer = Inr v"
    and "\<not> truthy v"
  shows "showReportPanel (handleSendMessage parse e answer (AxiosResolved d) s)
           = isLong (replyResponse d)"
    and "currentReport (handleSendMessage parse e answer (AxiosResolved d) s)
           = (if isLong (replyResponse d) then replyResponse d else JStr [])"
    and "messages (handleSendMessage parse e answer (AxiosResolved d) s)
           = filter notLoading (messages s)
             @ [userMessage e (inputValue s),
                botMessage e (orElse (replyResponse d) (JStr txt_cannot_process))]"
proof -
  obtain s3 r where st: "handleAgentStream parse e (inputValue s) answer (beginSend e s) = (s3, r)"
    by (cases "handleAgentStream parse e (inputValue s) answer (beginSend e s)")
  have r: "r = Inr v"
    using st assms(2) handleAgentStream_result [of parse e "inputValue s" answer "beginSend e s"]
    by simp
  have nl: "\<not> isLong v" using assms(3) isLong_truthy by blast
  have m: "messages s3 = messages (beginSend e s)"
    using handleAgentStream_chat [OF st] by simp
  have u: "handleSendMessage parse e answer (AxiosResolved d) s
             = (fallbackChat e (inputValue s) (AxiosResolved d) s3) \<lparr> isLoading := False \<rparr>"
    using handleSendMessage_unblocked [OF assms(1) st] r assms(3) by simp
  have p: "showReportPanel s3 = False" "currentReport s3 = JStr []"
    using handleAgentStream_report [OF st] r nl by (simp_all add: beginSend_fields)
  show "showReportPanel (handleSendMessage parse e answer (AxiosResolved d) s)
           = isLong (replyResponse d)"
    by (simp add: u fallbackChat_resolved p)
  show "currentReport (handleSendMessage parse e answer (AxiosResolved d) s)
           = (if isLong (replyResponse d) then replyResponse d else JStr [])"
    by (simp add: u fallbackChat_resolved p)
  show "messages (handleSendMessage parse e answer (AxiosResolved d) s)
           = filter notLoading (messages s)
             @ [userMessage e (inputValue s),
                botMessage e (orElse (replyResponse d) (JStr txt_cannot_process))]"
    by (simp add: u fallbackChat_resolved m filter_beginSend)
qed

lemma filter_notLoading: "\<forall>m\<in>set (replaceLoading e c prev). msgIsLoading m \<noteq> Some True"
  by (auto simp: replaceLoading_def notLoading_def botMessage_def)

lemma catchSend_clean: "\<forall>m\<in>set (messages (catchSend e s)). msgIsLoading m \<noteq> Some True"
  using filter_notLoading by (simp add: catchSend_def)

lemma fallbackChat_clean:
  "\<forall>m\<in>set (messages (fallbackChat e q reply s)). msgIsLoading m \<noteq> Some True"
proof (cases reply)
  case AxiosRejected
  then show ?thesis using catchSend_clean by (simp add: fallbackChat_def Let_def)
next
  case (AxiosResolved d)
  then show ?thesis
    using filter_notLoading catchSend_clean
    by (auto simp: fallbackChat_def Let_def split: sum.splits)
qed

lemma renderContent_JStr:
  "content m = JStr c \<Longrightarrow>
   renderContent m = Inr (if msgType m = Bot \<and> length c > 500 then Markdown else PreWrapped)"
  by (simp add: renderContent_def bind_exn_def)

lemma renderContent_Markdown:
  "renderContent m = Inr Markdown \<longleftrightarrow> msgType m = Bot \<and> (\<exists>c. content m = JStr c \<and> length c > 500)"
  by (cases "content m") (auto simp: renderContent_def bind_exn_def)

text \<open>
  The failures the outer \<open>catch\<close> does see: a rejected or refused request, a missing
  body, a rejected read. One error action is appended after the steps shown so far,
  the send ends with the service-unavailable reply, and no second request is made.
\<close>

lemma stream_failure_reported:
  assumes "\<not> sendBlocked s"
    and "streamResult parse answer = Inl err"
  shows "snd (handleAgentStream parse e (inputValue s) answer (beginSend e s)) = Inl err"
    and "\<exists>shown. agentActions (fst (handleAgentStream parse e (inputValue s) answer (beginSend e s)))
                   = shown @ [errorAction e]
                 \<and> (\<forall>a\<in>set shown. status a \<noteq> Failed)"
    and "messages (handleSendMessage parse e answer reply s)
           = filter notLoading (messages s)
             @ [userMessage e (inputValue s), botMessage e (JStr txt_unavailable)]"
    and "requests (handleSendMessage parse e answer reply s)
           = requests s @ [streamRequest (inputValue s)]"
proof -
  obtain s3 r where st: "handleAgentStream parse e (inputValue s) answer (beginSend e s) = (s3, r)"
    by (cases "handleAgentStream parse e (inputValue s) answer (beginSend e s)")
  have r: "r = Inl err"
    using st assms(2) handleAgentStream_result [of parse e "inputValue s" answer "beginSend e s"]
    by simp
  show "snd (handleAgentStream parse e (inputValue s) answer (beginSend e s)) = Inl err"
    using st r by simp
  have m: "messages s3 = messages (beginSend e s)"
    using handleAgentStream_chat [OF st] by simp
  have u: "handleSendMessage parse e answer reply s = (catchSend e s3) \<lparr> isLoading := False \<rparr>"
    using handleSendMessage_unblocked [OF assms(1) st] r by simp
  show "messages (handleSendMessage parse e answer reply s)
           = filter notLoading (messages s)
             @ [userMessage e (inputValue s), botMessage e (JStr txt_unavailable)]"
    by (simp add: u catchSend_fields m filter_beginSend)
  show "requests (handleSendMessage parse e answer reply s)
           = requests s @ [streamRequest (inputValue s)]"
    using handleSendMessage_requests [OF assms(1), of parse e answer reply] assms(2) by simp
  have na: "status a \<noteq> Failed" if "newAction e data = Inr a" for a data
    using that
    by (auto simp: newAction_def bind_exn_def actionStatus_def
             split: sum.splits jsval.splits if_splits)
  have ns: "\<forall>a\<in>set (stepsBeforeFinal parse e lines). status a \<noteq> Failed" for lines
  proof (induction lines)
    case Nil
    then show ?case by simp
  next
    case (Cons l ls)
    then show ?case using na
      by (auto simp: stepOfLine_def split: option.splits sum.splits if_splits)
  qed
  have up: "(\<forall>a\<in>set (updateActions new prev). status a \<noteq> Failed)"
    if "status new \<noteq> Failed" "\<forall>a\<in>set prev. status a \<noteq> Failed" for new prev
  proof (cases "findIndex (\<lambda>a. title a = title new) prev")
    case None
    then show ?thesis using that by (simp add: updateActions_def)
  next
    case (Some i)
    have "set (prev[i := mergeAction (prev ! i) new]) \<subseteq> insert (mergeAction (prev ! i) new) (set prev)"
      by (rule set_update_subset_insert)
    then show ?thesis using that Some
      by (auto simp: updateActions_def mergeAction_def)
  qed
  have ap: "\<forall>a\<in>set (applySteps steps prev). status a \<noteq> Failed"
    if "\<forall>a\<in>set steps. status a \<noteq> Failed" "\<forall>a\<in>set prev. status a \<noteq> Failed" for steps prev
    using that
  proof (induction steps arbitrary: prev)
    case Nil
    then show ?case by (simp add: applySteps_def)
  next
    case (Cons a steps)
    have "applySteps (a # steps) prev = applySteps steps (updateActions a prev)"
      by (simp add: applySteps_def)
    moreover have "\<forall>x\<in>set (updateActions a prev). status x \<noteq> Failed"
      using up [of a prev] Cons.prems by simp
    ultimately show ?case using Cons.IH [of "updateActions a prev"] Cons.prems by simp
  qed
  show "\<exists>shown. agentActions (fst (handleAgentStream parse e (inputValue s) answer (beginSend e s)))
                   = shown @ [errorAction e]
                 \<and> (\<forall>a\<in>set shown. status a \<noteq> Failed)"
  proof (cases answer)
    case (Body chunks fin)
    have "agentActions (fst (handleAgentStream parse e (inputValue s) answer (beginSend e s)))
            = applySteps (stepsBeforeFinal parse e (allLines chunks)) [] @ [errorAction e]"
      using handleAgentStream_actions [of parse e "inputValue s" chunks fin "beginSend e s"]
        assms(2) Body by simp
    moreover have "\<forall>a\<in>set (applySteps (stepsBeforeFinal parse e (allLines chunks)) []).
                     status a \<noteq> Failed"
      using ap [of "stepsBeforeFinal parse e (allLines chunks)" "[]"] ns by simp
    ultimately show ?thesis by blast
  qed (simp_all add: handleAgentStream_def)
qed

section \<open>The example inputs evaluated\<close>

lemma split_sseChunk:
  "newline \<notin> set payload \<Longrightarrow> split_js newline (sseChunk payload) = [dataLine payload, [], []]"
proof -
  assume "newline \<notin> set payload"
  then have "newline \<notin> set (dataLine payload)"
    by (auto simp: dataLine_def ascii_def newline_def)
  then show ?thesis
    using split_js_append [of newline "dataLine payload" "[newline]"]
    by (simp add: sseChunk_def)
qed

lemma eventOfLine_empty: "eventOfLine parse [] = None"
  by (simp add: eventOfLine_def startsWith_def ascii_def)

lemma eventOfLine_dataLine:
  "trim payload = payload \<Longrightarrow> eventOfLine parse (dataLine payload) = parse payload"
  by (simp add: eventOfLine_def dataLine_def startsWith_def slice_def ascii_def)

lemma demo_texts:
  "newline \<notin> set txtStepSearchRunning" "trim txtStepSearchRunning = txtStepSearchRunning"
  "newline \<notin> set txtStepSearchCompleted" "trim txtStepSearchCompleted = txtStepSearchCompleted"
  "newline \<notin> set txtFinalShort" "trim txtFinalShort = txtFinalShort"
  "newline \<notin> set txtError" "trim txtError = txtError"
  by (simp_all add: txtStepSearchRunning_def txtStepSearchCompleted_def txtFinalShort_def
        txtError_def kw_search_def ascii_def newline_def trim_def isWhiteSpace_def)

lemma demoParse_values:
  "demoParse txtStepSearchRunning = Some evStepSearchRunning"
  "demoParse txtStepSearchCompleted = Some evStepSearchCompleted"
  "demoParse txtFinalShort = Some evFinalShort"
  "demoParse txtError = Some evError"
  by (simp_all add: demoParse_def txtStepSearchRunning_def txtStepSearchCompleted_def
        txtFinalShort_def txtError_def kw_search_def ascii_def)

lemma demo_events:
  "eventOfLine demoParse (dataLine txtStepSearchRunning) = Some evStepSearchRunning"
  "eventOfLine demoParse (dataLine txtStepSearchCompleted) = Some evStepSearchCompleted"
  "eventOfLine demoParse (dataLine txtFinalShort) = Some evFinalShort"
  "eventOfLine demoParse (dataLine txtError) = Some evError"
  by (simp_all add: eventOfLine_dataLine demo_texts demoParse_values)

lemma demo_types:
  "getProp evStepSearchRunning (ascii ''type'') = Inr (JStr (ascii ''step''))"
  "getProp evStepSearchCompleted (ascii ''type'') = Inr (JStr (ascii ''step''))"
  "getProp evFinalShort (ascii ''type'') = Inr (JStr (ascii ''final''))"
  "getProp evError (ascii ''type'') = Inr (JStr (ascii ''error''))"
  "getProp evStepSearchRunning (ascii ''step_name'') = Inr (JStr kw_search)"
  "getProp evStepSearchCompleted (ascii ''step_name'') = Inr (JStr kw_search)"
  "getProp evFinalShort (ascii ''response'') = Inr (JStr (ascii ''ok''))"
  "getProp evError (ascii ''message'') = Inr (JStr (ascii ''boom''))"
  by (simp_all add: evStepSearchRunning_def evStepSearchCompleted_def evFinalShort_def
        evError_def ascii_def)

lemma demo_finals:
  "finalOfLine demoParse [] = None"
  "finalOfLine demoParse (dataLine txtStepSearchRunning) = None"
  "finalOfLine demoParse (dataLine txtStepSearchCompleted) = None"
  "finalOfLine demoParse (dataLine txtError) = None"
  "finalOfLine demoParse (dataLine txtFinalShort) = Some (JStr (ascii ''ok''))"
  by (simp_all add: finalOfLine_def eventOfLine_empty demo_events hasType_def demo_types)

lemma demo_allLines:
  "allLines [sseChunk txtStepSearchRunning] = [dataLine txtStepSearchRunning, [], []]"
  "allLines [sseChunk txtStepSearchRunning, sseChunk txtFinalShort]
     = [dataLine txtStepSearchRunning, [], [], dataLine txtFinalShort, [], []]"
  "allLines [sseChunk txtError] = [dataLine txtError, [], []]"
  by (simp_all add: allLines_def split_sseChunk demo_texts)

lemma demo_steps:
  "stepOfLine demoParse demoEnv [] = None"
  "\<exists>a. stepOfLine demoParse demoEnv (dataLine txtStepSearchRunning) = Some a \<and> title a = kw_search"
proof -
  show "stepOfLine demoParse demoEnv [] = None"
    by (simp add: stepOfLine_def eventOfLine_empty)
  obtain a where "newAction demoEnv evStepSearchRunning = Inr a" "title a = kw_search"
    using newAction_title [OF demo_types(5)] by blast
  then show "\<exists>a. stepOfLine demoParse demoEnv (dataLine txtStepSearchRunning) = Some a
                 \<and> title a = kw_search"
    by (simp add: stepOfLine_def demo_events hasType_def demo_types)
qed

lemma demo_more_texts:
  "newline \<notin> set txtStepNoName" "trim txtStepNoName = txtStepNoName"
  "newline \<notin> set txtFinalSecond" "trim txtFinalSecond = txtFinalSecond"
  by (simp_all add: txtStepNoName_def txtFinalSecond_def ascii_def newline_def trim_def
        isWhiteSpace_def)

lemma demoParse_more_values:
  "demoParse txtStepNoName = Some evStepNoName"
  "demoParse txtFinalSecond = Some evFinalSecond"
  by (simp_all add: demoParse_def txtStepSearchRunning_def txtStepSearchCompleted_def
        txtFinalShort_def txtError_def txtStepNoName_def txtFinalSecond_def kw_search_def
        ascii_def)

lemma demo_more_events:
  "eventOfLine demoParse (dataLine txtStepNoName) = Some evStepNoName"
  "eventOfLine demoParse (dataLine txtFinalSecond) = Some evFinalSecond"
  by (simp_all add: eventOfLine_dataLine demo_more_texts demoParse_more_values)

lemma demo_more_types:
  "getProp evStepNoName (ascii ''type'') = Inr (JStr (ascii ''step''))"
  "getProp evStepNoName (ascii ''step_name'') = Inr JUndefined"
  "getProp evFinalSecond (ascii ''type'') = Inr (JStr (ascii ''final''))"
  "getProp evFinalSecond (ascii ''response'') = Inr (JStr (ascii ''second''))"
  by (simp_all add: evStepNoName_def evFinalSecond_def ascii_def)


lemma finalHead_value:
  \<open>finalHead = ascii ''data: {"type":"final","respo''\<close>
  by (simp add: finalHead_def sseChunk_def dataLine_def txtFinalShort_def ascii_def)

lemma finalTail_value:
  \<open>finalTail = ascii ''nse":"ok"}'' @ [newline, newline]\<close>
  by (simp add: finalTail_def sseChunk_def dataLine_def txtFinalShort_def ascii_def)

lemma final_cut_lines:
  \<open>allLines [finalHead, finalTail] = [finalHead, ascii ''nse":"ok"}'', [], []]\<close>
proof -
  have a: "split_js newline finalHead = [finalHead]"
    by (rule split_js_whole) (simp add: finalHead_value ascii_def newline_def)
  have \<open>newline \<notin> set (ascii ''nse":"ok"}'')\<close> by (simp add: ascii_def newline_def)
  then have b: \<open>split_js newline finalTail = [ascii ''nse":"ok"}'', [], []]\<close>
    using split_js_append [of newline \<open>ascii ''nse":"ok"}''\<close> "[newline]"]
    by (simp add: finalTail_value)
  show ?thesis by (simp add: allLines_def a b)
qed

lemma final_cut_events:
  "eventOfLine demoParse finalHead = None"
  \<open>eventOfLine demoParse (ascii ''nse":"ok"}'') = None\<close>
  by (simp_all add: eventOfLine_def finalHead_value startsWith_def slice_def trim_def
        isWhiteSpace_def demoParse_def txtStepSearchRunning_def txtStepSearchCompleted_def
        txtFinalShort_def txtError_def txtStepNoName_def txtFinalSecond_def kw_search_def
        ascii_def)

lemma typedPage_unblocked: "\<not> sendBlocked (typedPage (ascii ''Tencent''))"
  by (simp add: sendBlocked_def typedPage_def initialPage_def trim_def ascii_def
        isWhiteSpace_def)

lemma typedPage_fields:
  "inputValue (typedPage q) = q" "isLoading (typedPage q) = False"
  "requests (typedPage q) = []"
  by (simp_all add: typedPage_def initialPage_def)

lemma longReport_length: "length longReport = 501"
  by (simp add: longReport_def)

section \<open>Step events are shown as they arrive\<close>




section \<open>The type of an action\<close>

text \<open>
  Claim C2, as the code has it. The type of an action follows from keywords in
  \<open>step_name\<close>: \<open>search\<close> when it contains U+641C U+7D22, else \<open>analyze\<close> when it
  contains U+5206 U+6790, else \<open>generate\<close> when it contains U+62A5 U+544A, and the
  catch-all \<open>complete\<close> otherwise. There are three stage-specific types, so no four
  step names get four different types none of which is the catch-all.
\<close>

theorem action_type_by_keyword:
  "actionType (JStr step_name) =
     Inr (if sublist kw_search step_name then Search
          else if sublist kw_analyze step_name then Analyze
          else if sublist kw_report step_name then Generate
          else Complete)
   \<and> \<not> (distinct [actionType (JStr a), actionType (JStr b), actionType (JStr c),
                     actionType (JStr d)]
          \<and> Inr Complete \<notin> set [actionType (JStr a), actionType (JStr b),
                                      actionType (JStr c), actionType (JStr d)])"
proof -
  obtain ta tb tc td where t: "actionType (JStr a) = Inr ta" "actionType (JStr b) = Inr tb"
      "actionType (JStr c) = Inr tc" "actionType (JStr d) = Inr td"
    using actionType_total by metis
  have "\<not> (distinct [ta, tb, tc, td] \<and> Complete \<notin> set [ta, tb, tc, td])"
    by (rule four_of_three)
  then have "\<not> (distinct [actionType (JStr a), actionType (JStr b), actionType (JStr c),
                     actionType (JStr d)]
          \<and> Inr Complete \<notin> set [actionType (JStr a), actionType (JStr b),
                                      actionType (JStr c), actionType (JStr d)])"
    unfolding t by auto
  then show ?thesis by (simp add: actionType_JStr includes_js_sublist)
qed

text \<open>
  Claim C2 as stated fails: the planning stage, under its English name and under the
  name the development guide gives it, gets the catch-all type, the same as a name
  that belongs to no stage; so do the other three English stage names.
\<close>

theorem plan_stage_gets_catch_all_type:
  "actionType (JStr (ascii ''plan'')) = Inr Complete
   \<and> actionType (JStr txt_plan_stage) = Inr Complete
   \<and> actionType (JStr (ascii ''search'')) = Inr Complete
   \<and> actionType (JStr (ascii ''analyze'')) = Inr Complete
   \<and> actionType (JStr (ascii ''report'')) = Inr Complete
   \<and> actionType (JStr (ascii ''unrelated'')) = Inr Complete"
  by (simp add: actionType_JStr txt_plan_stage_def kw_search_def kw_analyze_def kw_report_def
        ascii_def startsWith_def)

section \<open>The conversation id\<close>

text \<open>
  Claim C3. Every request a send issues, to the stream endpoint, to the chat endpoint
  as fallback, and to the chat endpoint of the earlier page, carries the conversation
  id \<open>default\<close> and the text typed. A send that passes the guard issues the stream
  request alone or followed by the chat request. The requests depend on the input and
  the loading flag only: two states that agree on these issue the same requests,
  whatever messages, actions or report they hold.
\<close>

theorem requests_carry_default_conversation:
  "(\<forall>r\<in>set (newRequests s (handleSendMessage parse e answer reply s)).
       conversation_id r = ascii ''default'' \<and> reqMessage r = inputValue s)
   \<and> (\<forall>r\<in>set (newRequests s (handleSendMessage_simulated e reply s)).
       conversation_id r = ascii ''default'' \<and> reqMessage r = inputValue s)
   \<and> (\<not> sendBlocked s \<longrightarrow>
        (newRequests s (handleSendMessage parse e answer reply s) = [streamRequest (inputValue s)]
         \<or> newRequests s (handleSendMessage parse e answer reply s)
             = [streamRequest (inputValue s), chatRequest (inputValue s)])
        \<and> newRequests s (handleSendMessage_simulated e reply s)
             = [chatRequest_relative (inputValue s)])
   \<and> (inputValue t = inputValue s \<and> isLoading t = isLoading s \<longrightarrow>
        newRequests t (handleSendMessage parse e answer reply t)
          = newRequests s (handleSendMessage parse e answer reply s)
        \<and> newRequests t (handleSendMessage_simulated e reply t)
          = newRequests s (handleSendMessage_simulated e reply s))"
proof -
  define extra where "extra q =
      (case streamResult parse answer of
         Inr v \<Rightarrow> if truthy v then [] else [chatRequest q]
       | Inl err \<Rightarrow> [])" for q
  have ex: "extra q = [] \<or> extra q = [chatRequest q]" for q
    by (auto simp: extra_def split: sum.splits)
  have a: "newRequests u (handleSendMessage parse e answer reply u)
             = (if sendBlocked u then [] else streamRequest (inputValue u) # extra (inputValue u))"
    for u
  proof (cases "sendBlocked u")
    case True
    then show ?thesis by (simp add: handleSendMessage_def newRequests_same)
  next
    case False
    from handleSendMessage_requests [OF False, of parse e answer reply] False
    show ?thesis by (simp add: newRequests_append extra_def)
  qed
  have b: "newRequests u (handleSendMessage_simulated e reply u)
             = (if sendBlocked u then [] else [chatRequest_relative (inputValue u)])" for u
  proof (cases "sendBlocked u")
    case True
    then show ?thesis by (simp add: handleSendMessage_simulated_def newRequests_same)
  next
    case False
    from handleSendMessage_simulated_requests [OF False, of e reply] False
    show ?thesis by (simp add: newRequests_append)
  qed
  have c: "inputValue t = inputValue s \<and> isLoading t = isLoading s \<Longrightarrow> sendBlocked t = sendBlocked s"
    by (simp add: sendBlocked_def)
  have p1: "\<forall>r\<in>set (newRequests s (handleSendMessage parse e answer reply s)).
       conversation_id r = ascii ''default'' \<and> reqMessage r = inputValue s"
    using ex [of "inputValue s"]
    by (auto simp: a streamRequest_def chatRequest_def)
  have p2: "\<forall>r\<in>set (newRequests s (handleSendMessage_simulated e reply s)).
       conversation_id r = ascii ''default'' \<and> reqMessage r = inputValue s"
    by (auto simp: b chatRequest_relative_def)
  have p3: "\<not> sendBlocked s \<longrightarrow>
        (newRequests s (handleSendMessage parse e answer reply s) = [streamRequest (inputValue s)]
         \<or> newRequests s (handleSendMessage parse e answer reply s)
             = [streamRequest (inputValue s), chatRequest (inputValue s)])
        \<and> newRequests s (handleSendMessage_simulated e reply s)
             = [chatRequest_relative (inputValue s)]"
    using ex [of "inputValue s"] by (auto simp: a b)
  have p4: "inputValue t = inputValue s \<and> isLoading t = isLoading s \<longrightarrow>
        newRequests t (handleSendMessage parse e answer reply t)
          = newRequests s (handleSendMessage parse e answer reply s)
        \<and> newRequests t (handleSendMessage_simulated e reply t)
          = newRequests s (handleSendMessage_simulated e reply s)"
    using c by (auto simp: a b)
  from p1 p2 p3 p4 show ?thesis by blast
qed

theorem requests_carry_default_conversation_witness:
  "\<not> sendBlocked (typedPage (ascii ''Tencent''))
   \<and> inputValue ((typedPage (ascii ''Tencent'')) \<lparr> showChatHistory := True \<rparr>)
       = inputValue (typedPage (ascii ''Tencent''))
   \<and> isLoading ((typedPage (ascii ''Tencent'')) \<lparr> showChatHistory := True \<rparr>)
       = isLoading (typedPage (ascii ''Tencent''))
   \<and> newRequests (typedPage (ascii ''Tencent''))
        (handleSendMessage demoParse demoEnv (Body [] Done) AxiosRejected
           (typedPage (ascii ''Tencent'')))
       = [streamRequest (ascii ''Tencent''), chatRequest (ascii ''Tencent'')]
   \<and> conversation_id (streamRequest (ascii ''Tencent'')) = ascii ''default''
   \<and> reqMessage (streamRequest (ascii ''Tencent'')) = ascii ''Tencent''
   \<and> conversation_id (chatRequest (ascii ''Tencent'')) = ascii ''default''
   \<and> reqMessage (chatRequest (ascii ''Tencent'')) = ascii ''Tencent''
   \<and> newRequests ((typedPage (ascii ''Tencent'')) \<lparr> showChatHistory := True \<rparr>)
        (handleSendMessage demoParse demoEnv (Body [] Done) AxiosRejected
           ((typedPage (ascii ''Tencent'')) \<lparr> showChatHistory := True \<rparr>))
       = [streamRequest (ascii ''Tencent''), chatRequest (ascii ''Tencent'')]"
proof -
  let ?s = "typedPage (ascii ''Tencent'')"
  let ?t = "?s \<lparr> showChatHistory := True \<rparr>"
  have h1: "\<not> sendBlocked ?s" by (rule typedPage_unblocked)
  have h2: "inputValue ?t = inputValue ?s \<and> isLoading ?t = isLoading ?s" by simp
  have "requests (handleSendMessage demoParse demoEnv (Body [] Done) AxiosRejected ?s)
          = [streamRequest (ascii ''Tencent''), chatRequest (ascii ''Tencent'')]"
    using handleSendMessage_requests [OF h1, of demoParse demoEnv "Body [] Done" AxiosRejected]
    by (simp add: typedPage_fields allLines_def endResult_def)
  then have n: "newRequests ?s (handleSendMessage demoParse demoEnv (Body [] Done) AxiosRejected ?s)
          = [streamRequest (ascii ''Tencent''), chatRequest (ascii ''Tencent'')]"
    by (simp add: newRequests_def typedPage_fields)
  note inst = requests_carry_default_conversation [of ?s demoParse demoEnv "Body [] Done"
      AxiosRejected ?t]
  have c1: "\<forall>r\<in>set (newRequests ?s
               (handleSendMessage demoParse demoEnv (Body [] Done) AxiosRejected ?s)).
             conversation_id r = ascii ''default'' \<and> reqMessage r = inputValue ?s"
    using inst by blast
  have c2: "newRequests ?t (handleSendMessage demoParse demoEnv (Body [] Done) AxiosRejected ?t)
              = newRequests ?s (handleSendMessage demoParse demoEnv (Body [] Done) AxiosRejected ?s)"
    using inst h2 by blast
  have v1: "conversation_id (streamRequest (ascii ''Tencent'')) = ascii ''default''
    \<and> reqMessage (streamRequest (ascii ''Tencent'')) = ascii ''Tencent''
    \<and> conversation_id (chatRequest (ascii ''Tencent'')) = ascii ''default''
    \<and> reqMessage (chatRequest (ascii ''Tencent'')) = ascii ''Tencent''"
    using c1 unfolding n typedPage_fields by simp
  have v2: "newRequests ?t (handleSendMessage demoParse demoEnv (Body [] Done) AxiosRejected ?t)
              = [streamRequest (ascii ''Tencent''), chatRequest (ascii ''Tencent'')]"
    using c2 unfolding n .
  from h1 h2 n v1 v2 show ?thesis by blast
qed

section \<open>An error event\<close>

text \<open>
  Claim C4 at an error event. The \<open>throw\<close> of the error branch sits inside the inner
  \<open>try\<close>, whose \<open>catch\<close> swallows it: for a stream whose only event is
  \<open>{"type":"error","message":"boom"}\<close> the handler returns undefined and appends no
  error action, and \<open>handleSendMessage\<close> posts the same message to the chat endpoint and
  shows its reply, where the claim has one error action, a rethrow, the
  service-unavailable reply and no second request.
\<close>

theorem error_event_is_swallowed:
  "snd (handleAgentStream demoParse demoEnv (ascii ''Tencent'') (Body [sseChunk txtError] Done)
          (beginSend demoEnv (typedPage (ascii ''Tencent'')))) = Inr JUndefined
   \<and> agentActions (fst (handleAgentStream demoParse demoEnv (ascii ''Tencent'')
          (Body [sseChunk txtError] Done) (beginSend demoEnv (typedPage (ascii ''Tencent''))))) = []
   \<and> requests (handleSendMessage demoParse demoEnv (Body [sseChunk txtError] Done)
          (AxiosResolved (ObjectData [(ascii ''response'', JStr (ascii ''late''))]))
          (typedPage (ascii ''Tencent'')))
       = [streamRequest (ascii ''Tencent''), chatRequest (ascii ''Tencent'')]
   \<and> content (last (messages (handleSendMessage demoParse demoEnv (Body [sseChunk txtError] Done)
          (AxiosResolved (ObjectData [(ascii ''response'', JStr (ascii ''late''))]))
          (typedPage (ascii ''Tencent''))))) = JStr (ascii ''late'')"
proof -
  let ?s = "typedPage (ascii ''Tencent'')"
  let ?answer = "Body [sseChunk txtError] Done"
  let ?d = "ObjectData [(ascii ''response'', JStr (ascii ''late''))]"
  have ff: "firstFinal demoParse (allLines [sseChunk txtError]) = None"
    by (simp add: demo_allLines demo_finals)
  have res: "streamResult demoParse ?answer = Inr JUndefined"
    by (simp add: ff endResult_def)
  have st: "stepOfLine demoParse demoEnv (dataLine txtError) = None"
    by (simp add: stepOfLine_def demo_events hasType_def demo_types)
  have sb: "stepsBeforeFinal demoParse demoEnv (allLines [sseChunk txtError]) = []"
    by (simp add: demo_allLines demo_finals st demo_steps)
  have a: "snd (handleAgentStream demoParse demoEnv (ascii ''Tencent'') ?answer
                 (beginSend demoEnv ?s)) = Inr JUndefined"
    by (simp only: handleAgentStream_result res)
  have b: "agentActions (fst (handleAgentStream demoParse demoEnv (ascii ''Tencent'') ?answer
                 (beginSend demoEnv ?s))) = []"
    by (simp add: handleAgentStream_actions sb res applySteps_def del: streamResult.simps)
  have u: "\<not> sendBlocked ?s" by (rule typedPage_unblocked)
  have c: "requests (handleSendMessage demoParse demoEnv ?answer (AxiosResolved ?d) ?s)
             = [streamRequest (ascii ''Tencent''), chatRequest (ascii ''Tencent'')]"
    using handleSendMessage_requests [OF u, of demoParse demoEnv ?answer "AxiosResolved ?d"]
    by (simp add: res typedPage_fields del: streamResult.simps)
  have "truthy (JStr (ascii ''late''))" by (simp add: ascii_def)
  then have d: "content (last (messages (handleSendMessage demoParse demoEnv ?answer
                  (AxiosResolved ?d) ?s))) = JStr (ascii ''late'')"
    using handleSendMessage_fallback(3) [OF u res, of demoEnv ?d]
    by (simp add: orElse_def botMessage_def)
  from a b c d show ?thesis by blast
qed

section \<open>The final response\<close>

text \<open>
  Claim C5, as the code has it. When a line of the stream, whole within one chunk and
  with no final event before it, parses to an
  event of type \<open>final\<close> whose \<open>response\<close> is a non-empty string, the send ends with
  the loading placeholder removed and one bot message appended whose content is that
  string, unchanged; no request but the stream request is made.
\<close>

theorem final_response_forwarded_unmodified:
  assumes "\<not> sendBlocked s"
    and "allLines chunks = before @ line # rest"
    and "\<forall>l\<in>set before. finalOfLine parse l = None"
    and "startsWith line (ascii ''data: '')"
    and "parse (trim (slice 6 line)) = Some data"
    and "getProp data (ascii ''type'') = Inr (JStr (ascii ''final''))"
    and "getProp data (ascii ''response'') = Inr (JStr r)"
    and "r \<noteq> []"
  shows "messages (handleSendMessage parse e (Body chunks fin) reply s)
           = filter notLoading (messages s)
             @ [userMessage e (inputValue s), botMessage e (JStr r)]
         \<and> content (last (messages (handleSendMessage parse e (Body chunks fin) reply s))) = JStr r
         \<and> requests (handleSendMessage parse e (Body chunks fin) reply s)
           = requests s @ [streamRequest (inputValue s)]"
proof -
  have "eventOfLine parse line = Some data" using assms(4,5) by (simp add: eventOfLine_def)
  then have "finalOfLine parse line = Some (JStr r)"
    using assms(6,7) by (simp add: finalOfLine_def hasType_def)
  then have "firstFinal parse (allLines chunks) = Some (JStr r)"
    using firstFinal_split [OF assms(3), of line rest] assms(2) by simp
  then have res: "streamResult parse (Body chunks fin) = Inr (JStr r)" by simp
  have t: "truthy (JStr r)" using assms(8) by simp
  note f = handleSendMessage_final [OF assms(1) res t, of e reply]
  show ?thesis using f(1,2) by (simp add: botMessage_def)
qed

theorem final_response_forwarded_unmodified_witness:
  "\<not> sendBlocked (typedPage (ascii ''Tencent''))
   \<and> allLines [sseChunk txtStepSearchRunning, sseChunk txtFinalShort]
       = [dataLine txtStepSearchRunning, [], []] @ dataLine txtFinalShort # [[], []]
   \<and> finalOfLine demoParse (dataLine txtStepSearchRunning) = None
   \<and> finalOfLine demoParse [] = None
   \<and> startsWith (dataLine txtFinalShort) (ascii ''data: '')
   \<and> demoParse (trim (slice 6 (dataLine txtFinalShort))) = Some evFinalShort
   \<and> getProp evFinalShort (ascii ''type'') = Inr (JStr (ascii ''final''))
   \<and> getProp evFinalShort (ascii ''response'') = Inr (JStr (ascii ''ok''))
   \<and> ascii ''ok'' \<noteq> []
   \<and> content (last (messages (handleSendMessage demoParse demoEnv
        (Body [sseChunk txtStepSearchRunning, sseChunk txtFinalShort] Done) AxiosRejected
        (typedPage (ascii ''Tencent''))))) = JStr (ascii ''ok'')"
proof -
  have h1: "\<not> sendBlocked (typedPage (ascii ''Tencent''))" by (rule typedPage_unblocked)
  have h2: "allLines [sseChunk txtStepSearchRunning, sseChunk txtFinalShort]
       = [dataLine txtStepSearchRunning, [], []] @ dataLine txtFinalShort # [[], []]"
    by (simp add: demo_allLines)
  have h3: "\<forall>l\<in>set [dataLine txtStepSearchRunning, [], []]. finalOfLine demoParse l = None"
    by (simp add: demo_finals)
  have h4: "startsWith (dataLine txtFinalShort) (ascii ''data: '')"
    by (simp add: dataLine_def startsWith_def)
  have h5: "demoParse (trim (slice 6 (dataLine txtFinalShort))) = Some evFinalShort"
    by (simp add: dataLine_def slice_def ascii_def demo_texts demoParse_values)
  have h6: "getProp evFinalShort (ascii ''type'') = Inr (JStr (ascii ''final''))"
    by (rule demo_types)
  have h7: "getProp evFinalShort (ascii ''response'') = Inr (JStr (ascii ''ok''))"
    by (rule demo_types)
  have h8: "ascii ''ok'' \<noteq> []" by (simp add: ascii_def)
  from final_response_forwarded_unmodified [OF h1 h2 h3 h4 h5 h6 h7 h8, of demoEnv Done AxiosRejected]
  have c: "content (last (messages (handleSendMessage demoParse demoEnv
        (Body [sseChunk txtStepSearchRunning, sseChunk txtFinalShort] Done) AxiosRejected
        (typedPage (ascii ''Tencent''))))) = JStr (ascii ''ok'')"
    by blast
  have h3a: "finalOfLine demoParse (dataLine txtStepSearchRunning) = None"
    and h3b: "finalOfLine demoParse [] = None"
    by (rule demo_finals)+
  from h1 h2 h3a h3b h4 h5 h6 h7 h8 c show ?thesis by blast
qed

text \<open>
  Claim C5 as stated fails when the transport cuts the final event: the handler keeps
  no buffer between reads, so neither part is a line that parses, the stream ends
  without a final response, and the reply shown is the one of the chat endpoint. The
  same event delivered in one read is forwarded. Of two final events only the first is
  forwarded.
\<close>

theorem final_event_cut_by_transport_is_lost:
  "finalHead @ finalTail = sseChunk txtFinalShort
   \<and> content (last (messages (handleSendMessage demoParse demoEnv
        (Body [sseChunk txtFinalShort] Done)
        (AxiosResolved (ObjectData [(ascii ''response'', JStr (ascii ''late''))]))
        (typedPage (ascii ''Tencent''))))) = JStr (ascii ''ok'')
   \<and> content (last (messages (handleSendMessage demoParse demoEnv
        (Body [finalHead, finalTail] Done)
        (AxiosResolved (ObjectData [(ascii ''response'', JStr (ascii ''late''))]))
        (typedPage (ascii ''Tencent''))))) = JStr (ascii ''late'')
   \<and> JStr (ascii ''late'') \<noteq> JStr (ascii ''ok'')
   \<and> requests (handleSendMessage demoParse demoEnv (Body [finalHead, finalTail] Done)
        (AxiosResolved (ObjectData [(ascii ''response'', JStr (ascii ''late''))]))
        (typedPage (ascii ''Tencent'')))
       = [streamRequest (ascii ''Tencent''), chatRequest (ascii ''Tencent'')]
   \<and> finalOfLine demoParse (dataLine txtFinalSecond) = Some (JStr (ascii ''second''))
   \<and> content (last (messages (handleSendMessage demoParse demoEnv
        (Body [sseChunk txtFinalShort, sseChunk txtFinalSecond] Done)
        (AxiosResolved (ObjectData [(ascii ''response'', JStr (ascii ''late''))]))
        (typedPage (ascii ''Tencent''))))) = JStr (ascii ''ok'')
   \<and> JStr (ascii ''ok'') \<noteq> JStr (ascii ''second'')"
proof -
  let ?s = "typedPage (ascii ''Tencent'')"
  let ?d = "ObjectData [(ascii ''response'', JStr (ascii ''late''))]"
  have u: "\<not> sendBlocked ?s" by (rule typedPage_unblocked)
  have c0: "finalHead @ finalTail = sseChunk txtFinalShort"
    by (simp add: finalHead_def finalTail_def)
  have tok: "truthy (JStr (ascii ''ok''))" by (simp add: ascii_def)
  have r1: "streamResult demoParse (Body [sseChunk txtFinalShort] Done) = Inr (JStr (ascii ''ok''))"
    by (simp add: allLines_def split_sseChunk demo_texts demo_finals)
  have c1: "content (last (messages (handleSendMessage demoParse demoEnv
        (Body [sseChunk txtFinalShort] Done) (AxiosResolved ?d) ?s))) = JStr (ascii ''ok'')"
    using handleSendMessage_final(1) [OF u r1 tok, of demoEnv "AxiosResolved ?d"]
    by (simp add: botMessage_def)
  have ff: "firstFinal demoParse (allLines [finalHead, finalTail]) = None"
    by (simp add: final_cut_lines finalOfLine_def final_cut_events eventOfLine_empty)
  have r2: "streamResult demoParse (Body [finalHead, finalTail] Done) = Inr JUndefined"
    by (simp add: ff endResult_def)
  have "truthy (JStr (ascii ''late''))" by (simp add: ascii_def)
  then have c2: "content (last (messages (handleSendMessage demoParse demoEnv
        (Body [finalHead, finalTail] Done) (AxiosResolved ?d) ?s))) = JStr (ascii ''late'')"
    using handleSendMessage_fallback(3) [OF u r2, of demoEnv ?d]
    by (simp add: orElse_def botMessage_def)
  have c3: "JStr (ascii ''late'') \<noteq> JStr (ascii ''ok'')" by (simp add: ascii_def)
  have c4: "requests (handleSendMessage demoParse demoEnv (Body [finalHead, finalTail] Done)
        (AxiosResolved ?d) ?s)
       = [streamRequest (ascii ''Tencent''), chatRequest (ascii ''Tencent'')]"
    using handleSendMessage_requests [OF u, of demoParse demoEnv "Body [finalHead, finalTail] Done"
        "AxiosResolved ?d"]
    by (simp add: r2 typedPage_fields del: streamResult.simps)
  have c5: "finalOfLine demoParse (dataLine txtFinalSecond) = Some (JStr (ascii ''second''))"
    by (simp add: finalOfLine_def demo_more_events hasType_def demo_more_types)
  have r3: "streamResult demoParse (Body [sseChunk txtFinalShort, sseChunk txtFinalSecond] Done)
              = Inr (JStr (ascii ''ok''))"
    by (simp add: allLines_def split_sseChunk demo_texts demo_more_texts demo_finals)
  have c6: "content (last (messages (handleSendMessage demoParse demoEnv
        (Body [sseChunk txtFinalShort, sseChunk txtFinalSecond] Done) (AxiosResolved ?d) ?s)))
        = JStr (ascii ''ok'')"
    using handleSendMessage_final(1) [OF u r3 tok, of demoEnv "AxiosResolved ?d"]
    by (simp add: botMessage_def)
  have c7: "JStr (ascii ''ok'') \<noteq> JStr (ascii ''second'')" by (simp add: ascii_def)
  from c0 c1 c2 c3 c4 c5 c6 c7 show ?thesis by blast
qed

section \<open>Lines that are not data lines\<close>

text \<open>
  Claim C6. Each chunk is split on the newline (joining the lines with newlines gives
  the chunk back, and no line holds a newline). A line that does not start with
  \<open>'data: '\<close> leaves the whole state as it is, whatever the parser would make of it; a
  line that does is parsed from its seventh code unit on, trimmed. Processing a chunk
  is processing its data lines.
\<close>

theorem only_data_lines_are_parsed:
  "(\<not> prefix (ascii ''data: '') line \<longrightarrow> processLine parse e line s = (s, None))
   \<and> (prefix (ascii ''data: '') line \<longrightarrow>
        processLine parse e line s
          = (case parse (trim (drop 6 line)) of
               None \<Rightarrow> (s, None)
             | Some data \<Rightarrow> (case handleData e data s of Inl err \<Rightarrow> (s, None) | Inr r \<Rightarrow> r)))
   \<and> processLines parse e lines s
        = processLines parse e (filter (prefix (ascii ''data: '')) lines) s
   \<and> readLoop parse e (chunk # chunks) fin s
        = (case processLines parse e
                  (filter (prefix (ascii ''data: '')) (split_js newline chunk)) s of
             (s', Some v) \<Rightarrow> (s', Inr v)
           | (s', None) \<Rightarrow> readLoop parse e chunks fin s')
   \<and> joinLines newline (split_js newline chunk) = chunk
   \<and> (\<forall>l\<in>set (split_js newline chunk). newline \<notin> set l)"
proof (intro conjI impI ballI)
  assume "\<not> prefix (ascii ''data: '') line"
  then show "processLine parse e line s = (s, None)"
    by (simp add: processLine_def startsWith_prefix)
next
  assume "prefix (ascii ''data: '') line"
  then show "processLine parse e line s
          = (case parse (trim (drop 6 line)) of
               None \<Rightarrow> (s, None)
             | Some data \<Rightarrow> (case handleData e data s of Inl err \<Rightarrow> (s, None) | Inr r \<Rightarrow> r))"
    by (simp add: processLine_def startsWith_prefix slice_def)
next
  show "processLines parse e lines s
        = processLines parse e (filter (prefix (ascii ''data: '')) lines) s"
    by (rule processLines_filter)
next
  show "readLoop parse e (chunk # chunks) fin s
        = (case processLines parse e
                  (filter (prefix (ascii ''data: '')) (split_js newline chunk)) s of
             (s', Some v) \<Rightarrow> (s', Inr v)
           | (s', None) \<Rightarrow> readLoop parse e chunks fin s')"
    using processLines_filter [of parse e "split_js newline chunk" s] by simp
next
  show "joinLines newline (split_js newline chunk) = chunk" by (rule split_js_join)
next
  fix l assume "l \<in> set (split_js newline chunk)"
  then show "newline \<notin> set l" by (rule split_js_no_sep)
qed

theorem only_data_lines_are_parsed_witness:
  "\<not> prefix (ascii ''data: '') (ascii ''event: ping'')
   \<and> processLine demoParse demoEnv (ascii ''event: ping'') (initialPage demoEnv)
       = (initialPage demoEnv, None)
   \<and> prefix (ascii ''data: '') (dataLine txtError)
   \<and> processLine demoParse demoEnv (dataLine txtError) (initialPage demoEnv)
       = (initialPage demoEnv, None)
   \<and> processLines demoParse demoEnv [ascii ''event: ping'', dataLine txtError] (initialPage demoEnv)
       = processLines demoParse demoEnv [dataLine txtError] (initialPage demoEnv)
   \<and> split_js newline (sseChunk txtError) = [dataLine txtError, [], []]
   \<and> newline \<notin> set (dataLine txtError)"
proof -
  have h1: "\<not> prefix (ascii ''data: '') (ascii ''event: ping'')"
    by (simp add: ascii_def)
  have h2: "prefix (ascii ''data: '') (dataLine txtError)"
    by (simp add: dataLine_def)
  have h3: "split_js newline (sseChunk txtError) = [dataLine txtError, [], []]"
    by (simp add: split_sseChunk demo_texts)
  have f: "filter (prefix (ascii ''data: '')) [ascii ''event: ping'', dataLine txtError]
             = [dataLine txtError]"
    using h1 h2 by simp
  note inst = only_data_lines_are_parsed [of "ascii ''event: ping''" demoParse demoEnv
        "initialPage demoEnv" "[ascii ''event: ping'', dataLine txtError]"
        "sseChunk txtError" "[]" Done]
  have c1: "processLine demoParse demoEnv (ascii ''event: ping'') (initialPage demoEnv)
       = (initialPage demoEnv, None)"
    using inst h1 by blast
  have c2: "processLines demoParse demoEnv [ascii ''event: ping'', dataLine txtError]
              (initialPage demoEnv)
       = processLines demoParse demoEnv [dataLine txtError] (initialPage demoEnv)"
    using inst unfolding f by blast
  have "\<forall>l\<in>set (split_js newline (sseChunk txtError)). newline \<notin> set l"
    using inst by blast
  then have c3: "newline \<notin> set (dataLine txtError)" unfolding h3 by simp
  have p: "demoParse (trim (drop 6 (dataLine txtError))) = Some evError"
    by (simp add: dataLine_def ascii_def demo_texts demoParse_values)
  have hd: "handleData demoEnv evError (initialPage demoEnv) = Inl (Error (JStr (ascii ''boom'')))"
    by (simp add: handleData_def bind_exn_def demo_types)
  have c4: "processLine demoParse demoEnv (dataLine txtError) (initialPage demoEnv)
       = (initialPage demoEnv, None)"
    using only_data_lines_are_parsed [of "dataLine txtError" demoParse demoEnv
        "initialPage demoEnv" "[]" "[]" "[]" Done] h2
    by (simp add: p hd)
  from h1 c1 h2 c4 c2 h3 c3 show ?thesis by blast
qed

section \<open>The order of the actions\<close>



section \<open>The guard of the send handler\<close>

text \<open>
  Claim C8. When the input is empty or holds only white space, or a request is already
  in flight, \<open>handleSendMessage\<close> (in both versions of the page) returns the state as it
  was: the messages, the input, the agent actions and the log of requests are
  untouched. The state a send leaves while its request is in flight has the loading
  flag set, so a further call in that state is such a no-op too.
\<close>

theorem send_guard_noop:
  assumes "(\<forall>c\<in>set (inputValue s). isWhiteSpace c) \<or> isLoading s"
  shows "handleSendMessage parse e answer reply s = s
         \<and> handleSendMessage_simulated e reply s = s
         \<and> handleSendMessage parse e' answer' reply' (beginSend e s) = beginSend e s"
proof -
  have "sendBlocked s" using assms by (simp only: sendBlocked_iff)
  moreover have "sendBlocked (beginSend e s)"
    by (simp add: sendBlocked_def isLoading_beginSend)
  ultimately show ?thesis
    by (simp add: handleSendMessage_def handleSendMessage_simulated_def)
qed

theorem send_guard_noop_witness:
  "set (inputValue (typedPage (ascii ''  ''))) = {0x20}
   \<and> isWhiteSpace 0x20
   \<and> handleSendMessage demoParse demoEnv FetchRejected AxiosRejected (typedPage (ascii ''  ''))
       = typedPage (ascii ''  '')
   \<and> handleSendMessage_simulated demoEnv AxiosRejected (typedPage (ascii ''  ''))
       = typedPage (ascii ''  '')"
proof -
  have h1: "set (inputValue (typedPage (ascii ''  ''))) = {0x20}"
    by (simp add: typedPage_def initialPage_def ascii_def)
  have h2: "isWhiteSpace 0x20" by (simp add: isWhiteSpace_def)
  have h: "(\<forall>c\<in>set (inputValue (typedPage (ascii ''  ''))). isWhiteSpace c)
           \<or> isLoading (typedPage (ascii ''  ''))"
    using h1 h2 by simp
  from send_guard_noop [OF h, of demoParse demoEnv FetchRejected AxiosRejected] h1 h2
  show ?thesis by blast
qed

section \<open>No loading placeholder survives a send\<close>

text \<open>
  Claim C9. Every send that passes the guard ends, on the success path, the fallback
  path and the error path alike, in a state whose message list holds no message with
  \<open>isLoading\<close> true and whose loading flag is false (both versions of the page).
\<close>

theorem no_loading_survives:
  assumes "\<not> sendBlocked s"
  shows "(\<forall>m\<in>set (messages (handleSendMessage parse e answer reply s)). msgIsLoading m \<noteq> Some True)
         \<and> \<not> isLoading (handleSendMessage parse e answer reply s)
         \<and> (\<forall>m\<in>set (messages (handleSendMessage_simulated e reply s)). msgIsLoading m \<noteq> Some True)
         \<and> \<not> isLoading (handleSendMessage_simulated e reply s)"
proof -
  obtain s3 r where st: "handleAgentStream parse e (inputValue s) answer (beginSend e s) = (s3, r)"
    by (cases "handleAgentStream parse e (inputValue s) answer (beginSend e s)")
  have a: "\<forall>m\<in>set (messages (handleSendMessage parse e answer reply s)). msgIsLoading m \<noteq> Some True"
  proof (cases r)
    case (Inl err)
    then show ?thesis using assms st catchSend_clean
      by (simp add: handleSendMessage_def)
  next
    case (Inr v)
    then show ?thesis using assms st fallbackChat_clean filter_notLoading
      by (simp add: handleSendMessage_def)
  qed
  have b: "\<not> isLoading (handleSendMessage parse e answer reply s)"
    using assms st by (simp add: handleSendMessage_def split: sum.splits)
  have c: "\<forall>m\<in>set (messages (handleSendMessage_simulated e reply s)). msgIsLoading m \<noteq> Some True"
    using assms catchSend_clean filter_notLoading
    by (cases reply) (simp_all add: handleSendMessage_simulated_def Let_def)
  have d: "\<not> isLoading (handleSendMessage_simulated e reply s)"
    using assms by (simp add: handleSendMessage_simulated_def Let_def split: axios_result.splits)
  from a b c d show ?thesis by blast
qed

theorem no_loading_survives_witness:
  "\<not> sendBlocked (typedPage (ascii ''Tencent''))
   \<and> list_all (\<lambda>m. msgIsLoading m \<noteq> Some True)
         (messages (handleSendMessage demoParse demoEnv FetchRejected AxiosRejected
                      (typedPage (ascii ''Tencent''))))
   \<and> \<not> isLoading (handleSendMessage demoParse demoEnv FetchRejected AxiosRejected
                      (typedPage (ascii ''Tencent'')))
   \<and> list_all (\<lambda>m. msgIsLoading m \<noteq> Some True)
         (messages (handleSendMessage_simulated demoEnv AxiosRejected
                      (typedPage (ascii ''Tencent''))))
   \<and> \<not> isLoading (handleSendMessage_simulated demoEnv AxiosRejected
                      (typedPage (ascii ''Tencent'')))"
proof -
  have h: "\<not> sendBlocked (typedPage (ascii ''Tencent''))" by (rule typedPage_unblocked)
  from no_loading_survives [OF h, of demoParse demoEnv FetchRejected AxiosRejected] h
  show ?thesis unfolding list_all_iff by blast
qed

section \<open>The report panel and the rendering of a reply\<close>

text \<open>
  Claim C10. After a send that passed the guard, the report panel is shown exactly when
  the response received (the truthy response of the final event, or else the response
  of the chat endpoint) is a string of more than 500 code units; the report is then
  that response, and empty otherwise. A message is rendered as markdown exactly when
  it is a bot message whose content is longer than 500 code units, and as pre-wrapped
  text otherwise.
\<close>

theorem report_panel_threshold:
  assumes "\<not> sendBlocked s"
  shows "(snd (handleAgentStream parse e (inputValue s) answer (beginSend e s)) = Inr v \<and> truthy v
            \<longrightarrow> (reportPanelShown (handleSendMessage parse e answer reply s)
                    \<longleftrightarrow> (\<exists>r. v = JStr r \<and> length r > 500))
               \<and> currentReport (handleSendMessage parse e answer reply s)
                    = (if reportPanelShown (handleSendMessage parse e answer reply s)
                       then v else JStr []))
         \<and> (snd (handleAgentStream parse e (inputValue s) answer (beginSend e s)) = Inr v
              \<and> \<not> truthy v
            \<longrightarrow> (reportPanelShown (handleSendMessage parse e answer (AxiosResolved d) s)
                    \<longleftrightarrow> (\<exists>r. replyResponse d = JStr r \<and> length r > 500))
               \<and> currentReport (handleSendMessage parse e answer (AxiosResolved d) s)
                    = (if reportPanelShown (handleSendMessage parse e answer (AxiosResolved d) s)
                       then replyResponse d else JStr []))
         \<and> (renderContent m = Inr Markdown
              \<longleftrightarrow> msgType m = Bot \<and> (\<exists>c. content m = JStr c \<and> length c > 500))
         \<and> (content m = JStr c
            \<longrightarrow> renderContent m
                  = Inr (if msgType m = Bot \<and> length c > 500 then Markdown else PreWrapped))"
proof -
  have res: "snd (handleAgentStream parse e (inputValue s) answer (beginSend e s))
               = streamResult parse answer"
    by (rule handleAgentStream_result)
  have a: "(reportPanelShown (handleSendMessage parse e answer reply s)
                    \<longleftrightarrow> (\<exists>r. v = JStr r \<and> length r > 500))
               \<and> currentReport (handleSendMessage parse e answer reply s)
                    = (if reportPanelShown (handleSendMessage parse e answer reply s)
                       then v else JStr [])"
    if h: "streamResult parse answer = Inr v" "truthy v"
  proof -
    note f = handleSendMessage_final [OF assms h, of e reply]
    show ?thesis using isLong_truthy [of v]
      by (auto simp: reportPanelShown_def f(3,4) isLong_iff)
  qed
  have b: "(reportPanelShown (handleSendMessage parse e answer (AxiosResolved d) s)
                    \<longleftrightarrow> (\<exists>r. replyResponse d = JStr r \<and> length r > 500))
               \<and> currentReport (handleSendMessage parse e answer (AxiosResolved d) s)
                    = (if reportPanelShown (handleSendMessage parse e answer (AxiosResolved d) s)
                       then replyResponse d else JStr [])"
    if h: "streamResult parse answer = Inr v" "\<not> truthy v"
  proof -
    note f = handleSendMessage_fallback [OF assms h, of e d]
    show ?thesis using isLong_truthy [of "replyResponse d"]
      by (auto simp: reportPanelShown_def f(1,2) isLong_iff)
  qed
  show ?thesis
    using a b renderContent_Markdown [of m] renderContent_JStr [of m c]
    unfolding res by blast
qed

theorem report_panel_threshold_witness:
  "\<not> sendBlocked (typedPage (ascii ''Tencent''))
   \<and> snd (handleAgentStream demoParse demoEnv (inputValue (typedPage (ascii ''Tencent'')))
            (Body [] Done) (beginSend demoEnv (typedPage (ascii ''Tencent'')))) = Inr JUndefined
   \<and> \<not> truthy JUndefined
   \<and> content (botMessage demoEnv (JStr longReport)) = JStr longReport
   \<and> reportPanelShown (handleSendMessage demoParse demoEnv (Body [] Done)
        (AxiosResolved (ObjectData [(ascii ''response'', JStr longReport)]))
        (typedPage (ascii ''Tencent'')))
   \<and> currentReport (handleSendMessage demoParse demoEnv (Body [] Done)
        (AxiosResolved (ObjectData [(ascii ''response'', JStr longReport)]))
        (typedPage (ascii ''Tencent''))) = JStr longReport
   \<and> renderContent (botMessage demoEnv (JStr longReport)) = Inr Markdown
   \<and> snd (handleAgentStream demoParse demoEnv (inputValue (typedPage (ascii ''Tencent'')))
            (Body [sseChunk txtStepSearchRunning, sseChunk txtFinalShort] Done)
            (beginSend demoEnv (typedPage (ascii ''Tencent'')))) = Inr (JStr (ascii ''ok''))
   \<and> truthy (JStr (ascii ''ok''))
   \<and> \<not> reportPanelShown (handleSendMessage demoParse demoEnv
        (Body [sseChunk txtStepSearchRunning, sseChunk txtFinalShort] Done) AxiosRejected
        (typedPage (ascii ''Tencent'')))"
proof -
  let ?s = "typedPage (ascii ''Tencent'')"
  let ?d = "ObjectData [(ascii ''response'', JStr longReport)]"
  let ?m = "botMessage demoEnv (JStr longReport)"
  let ?two = "Body [sseChunk txtStepSearchRunning, sseChunk txtFinalShort] Done"
  have h1: "\<not> sendBlocked ?s" by (rule typedPage_unblocked)
  have h2: "snd (handleAgentStream demoParse demoEnv (inputValue ?s) (Body [] Done)
              (beginSend demoEnv ?s)) = Inr JUndefined"
    by (simp add: handleAgentStream_result allLines_def endResult_def)
  have h3: "\<not> truthy JUndefined" by simp
  have h4: "content ?m = JStr longReport" by (simp add: botMessage_def)
  have h5: "snd (handleAgentStream demoParse demoEnv (inputValue ?s) ?two
              (beginSend demoEnv ?s)) = Inr (JStr (ascii ''ok''))"
    by (simp add: handleAgentStream_result demo_allLines demo_finals)
  have h6: "truthy (JStr (ascii ''ok''))" by (simp add: ascii_def)
  have rr: "replyResponse ?d = JStr longReport" by simp
  note fallback = report_panel_threshold [OF h1, of demoParse demoEnv "Body [] Done" JUndefined
      AxiosRejected ?d ?m longReport]
  note final = report_panel_threshold [OF h1, of demoParse demoEnv ?two "JStr (ascii ''ok'')"
      AxiosRejected ?d ?m longReport]
  have c1: "reportPanelShown (handleSendMessage demoParse demoEnv (Body [] Done)
              (AxiosResolved ?d) ?s)"
    using fallback h2 h3 rr longReport_length by simp
  have c2: "currentReport (handleSendMessage demoParse demoEnv (Body [] Done)
              (AxiosResolved ?d) ?s) = JStr longReport"
    using fallback h2 h3 rr c1 by simp
  have c3: "renderContent ?m = Inr Markdown"
    using fallback h4 longReport_length by (simp add: botMessage_def)
  have "\<not> (\<exists>r. JStr (ascii ''ok'') = JStr r \<and> length r > 500)" by (simp add: ascii_def)
  then have c4: "\<not> reportPanelShown (handleSendMessage demoParse demoEnv ?two AxiosRejected ?s)"
    using final h5 h6 by blast
  from h1 h2 h3 h4 c1 c2 c3 h5 h6 c4 show ?thesis by blast
qed


end
